theory Spec2Isabelle
  imports Main "HOL-Library.List_Lexorder" "HOL-Library.Char_ord" "HOL-Library.AList"
    "HOL-Library.Multiset" "HOL-Library.Sublist"
begin

section \<open>Row records and JavaScript values\<close>

text \<open>
  A row record (\<open>Transaction\<close> in the source, \<open>{[key: string]: any}\<close>) is a plain
  object: its own properties, all enumerable, are listed in enumeration order, and it
  inherits from \<open>Object.prototype\<close>.  A cell value is a string, a number, \<open>null\<close> or
  \<open>undefined\<close>; the matcher also stores a whole record under the property
  \<open>_matchedWith\<close>.  The engine observes a number only through \<open>String(v)\<close> /
  \<open>v.toString()\<close>, through its truthiness and through its not being a string, so a
  number is represented by the text that \<open>String\<close> returns for it.  The same holds
  for the built-in functions that a record inherits, which the engine can only meet by
  reading a column of that name; they are represented in the same way.
\<close>

datatype jsval = Undefined | Null | Str string | Num string | Obj "(string \<times> jsval) list"

type_synonym Transaction = "(string \<times> jsval) list"

text \<open>\<open>Object.keys(item)\<close>.\<close>

definition Object_keys :: "Transaction \<Rightarrow> string list" where
  "Object_keys item = map fst item"

text \<open>
  The names of the properties of \<open>Object.prototype\<close>, which every record inherits:
  \<open>key in item\<close> holds for them and \<open>item[key]\<close> reads them unless the record has an
  own property of that name.
\<close>

definition objectPrototypeKeys :: "string list" where
  "objectPrototypeKeys =
     [''constructor'', ''__defineGetter__'', ''__defineSetter__'', ''hasOwnProperty'',
      ''__lookupGetter__'', ''__lookupSetter__'', ''isPrototypeOf'',
      ''propertyIsEnumerable'', ''toString'', ''valueOf'', ''__proto__'',
      ''toLocaleString'']"

text \<open>
  What \<open>item[key]\<close> reads when the record has no own property \<open>key\<close>: \<open>Object.prototype\<close>
  itself (an object without enumerable properties) for \<open>__proto__\<close>, a built-in function
  for the other inherited names (\<open>constructor\<close> is the function \<open>Object\<close>; the text is
  the one V8 prints for a built-in function), and \<open>undefined\<close> otherwise.
\<close>

definition inheritedProp :: "string \<Rightarrow> jsval" where
  "inheritedProp key =
     (if key = ''__proto__'' then Obj []
      else if key \<in> set objectPrototypeKeys
        then Num (''function '' @ (if key = ''constructor'' then ''Object'' else key)
                    @ ''() { [native code] }'')
      else Undefined)"

text \<open>\<open>item[key]\<close>: the own property, else the inherited one, else \<open>undefined\<close>.\<close>

definition getProp :: "Transaction \<Rightarrow> string \<Rightarrow> jsval" where
  "getProp item key = (case map_of item key of None \<Rightarrow> inheritedProp key | Some v \<Rightarrow> v)"

text \<open>The names for which \<open>key in item\<close> holds: the own and the inherited ones.\<close>

definition propertyNames :: "Transaction \<Rightarrow> string list" where
  "propertyNames item = Object_keys item @ objectPrototypeKeys"

text \<open>\<open>key in item\<close>.\<close>

definition hasProp :: "string \<Rightarrow> Transaction \<Rightarrow> bool" where
  "hasProp key item = (key \<in> set (propertyNames item))"

text \<open>\<open>String(v)\<close> and, for the values that have the method, \<open>v.toString()\<close>.\<close>

fun jsString :: "jsval \<Rightarrow> string" where
  "jsString Undefined = ''undefined''"
| "jsString Null = ''null''"
| "jsString (Str s) = s"
| "jsString (Num s) = s"
| "jsString (Obj fs) = ''[object Object]''"

text \<open>Truthiness (\<open>Boolean(v)\<close>, \<open>!v\<close>, \<open>if (v)\<close>).\<close>

fun truthy :: "jsval \<Rightarrow> bool" where
  "truthy Undefined = False"
| "truthy Null = False"
| "truthy (Str s) = (s \<noteq> [])"
| "truthy (Num s) = (s \<noteq> ''0'' \<and> s \<noteq> ''NaN'')"
| "truthy (Obj fs) = True"

subsection \<open>String operations\<close>

text \<open>
  Characters are bytes here; \<open>toLowerCase\<close> and \<open>trim\<close> are modelled on ASCII:
  the letters \<open>A..Z\<close> and the white space characters tab, line feed, vertical tab, form
  feed, carriage return and space.
\<close>

definition toLowerChar :: "char \<Rightarrow> char" where
  "toLowerChar c =
     (if CHR ''A'' \<le> c \<and> c \<le> CHR ''Z''
      then (case c of Char b0 b1 b2 b3 b4 b5 b6 b7 \<Rightarrow> Char b0 b1 b2 b3 b4 True b6 b7)
      else c)"

definition toLowerCase :: "string \<Rightarrow> string" where
  "toLowerCase s = map toLowerChar s"

definition isWhitespace :: "char \<Rightarrow> bool" where
  "isWhitespace c = ((CHR 0x09 \<le> c \<and> c \<le> CHR 0x0D) \<or> c = CHR '' '')"

definition trim :: "string \<Rightarrow> string" where
  "trim s = rev (dropWhile isWhitespace (rev (dropWhile isWhitespace s)))"

definition startsWith :: "string \<Rightarrow> string \<Rightarrow> bool" where
  "startsWith s p = (take (length p) s = p)"

text \<open>\<open>parts.join(sep)\<close>.\<close>

fun join :: "string \<Rightarrow> string list \<Rightarrow> string" where
  "join sep [] = []"
| "join sep [p] = p"
| "join sep (p # q # ps) = p @ sep @ join sep (q # ps)"

section \<open>Composite keys\<close>

subsection \<open>\<open>createCompositeKeyFromAllColumns\<close> (reconciliation.ts)\<close>

text \<open>
  The loop over the sorted keys: a key that starts with an underscore is skipped; a
  \<open>null\<close>/\<open>undefined\<close> value becomes the empty string; the value is converted with
  \<open>String\<close> and trimmed; the part \<open>key:value\<close> is pushed.  (Rows are objects, so the
  guard \<open>!item || typeof item !== "object"\<close> is not taken; the keys are own keys and
  a row holds no function among its own properties.)
\<close>

definition nullToEmpty :: "jsval \<Rightarrow> jsval" where
  "nullToEmpty v = (if v = Null \<or> v = Undefined then Str [] else v)"

fun allColumnsKeyParts :: "Transaction \<Rightarrow> string list \<Rightarrow> string list" where
  "allColumnsKeyParts item [] = []"
| "allColumnsKeyParts item (key # keys) =
     (if startsWith key ''_'' then allColumnsKeyParts item keys
      else (key @ '':'' @ trim (jsString (nullToEmpty (getProp item key))))
             # allColumnsKeyParts item keys)"

definition createCompositeKeyFromAllColumns :: "Transaction \<Rightarrow> string" where
  "createCompositeKeyFromAllColumns item =
     join ''|'' (allColumnsKeyParts item (sort (Object_keys item)))"

subsection \<open>The key of \<open>findDuplicates\<close> (duplicate-detection utility with options)\<close>

record DuplicateOptions =
  caseSensitive :: bool
  trimWhitespace :: bool
  ignoreEmptyValues :: bool

text \<open>The defaults of the destructuring \<open>{caseSensitive = false, trimWhitespace = true,
  ignoreEmptyValues = true}\<close>.\<close>

definition defaultOptions :: DuplicateOptions where
  "defaultOptions = \<lparr>caseSensitive = False, trimWhitespace = True, ignoreEmptyValues = True\<rparr>"

text \<open>The normalisation of one non-null value: \<open>String\<close>, then lower case unless
  case sensitive, then trim if configured.\<close>

definition normalizeValue :: "DuplicateOptions \<Rightarrow> jsval \<Rightarrow> string" where
  "normalizeValue opts v =
     (let s = jsString v;
          s = (if \<not> caseSensitive opts then toLowerCase s else s)
      in if trimWhitespace opts then trim s else s)"

text \<open>The loop \<open>for (const key of keysToCheck)\<close> that fills \<open>keyParts\<close>.\<close>

fun optionKeyParts :: "DuplicateOptions \<Rightarrow> Transaction \<Rightarrow> string list \<Rightarrow> string list" where
  "optionKeyParts opts item [] = []"
| "optionKeyParts opts item (key # keys) =
     (let v = getProp item key in
      if (v = Undefined \<or> v = Null) \<and> ignoreEmptyValues opts
      then optionKeyParts opts item keys
      else (key @ '':'' @ (if v \<noteq> Null \<and> v \<noteq> Undefined then normalizeValue opts v else []))
             # optionKeyParts opts item keys)"

definition findDuplicates_compositeKey ::
    "DuplicateOptions \<Rightarrow> string list \<Rightarrow> Transaction \<Rightarrow> string" where
  "findDuplicates_compositeKey opts keysToCheck item =
     join ''|'' (optionKeyParts opts item keysToCheck)"

text \<open>\<open>keysToCheck\<close>: the given columns, or all columns of the first row.\<close>

definition keysToCheck :: "string list \<Rightarrow> Transaction list \<Rightarrow> string list" where
  "keysToCheck columns data =
     (if columns \<noteq> [] then columns
      else (case data of [] \<Rightarrow> [] | first # _ \<Rightarrow> Object_keys first))"

section \<open>Chunked loops\<close>

text \<open>
  Every pass over a dataset in the engine has the shape
  \<^verbatim>\<open>for (let i = 0; i < data.length; i += chunkSize) {
       const chunk = data.slice(i, Math.min(i + chunkSize, data.length))
       for (let j = 0; j < chunk.length; j++) { body(i + j, chunk[j]) }
       await ... }\<close>
  with \<open>chunkSize = 1000\<close>.  \<open>forChunk\<close> is the inner loop (started at global index
  \<open>i\<close>), \<open>forChunks\<close> the outer one.
\<close>

definition chunkSize :: nat where
  "chunkSize = 1000"

definition slice :: "'a list \<Rightarrow> nat \<Rightarrow> nat \<Rightarrow> 'a list" where
  "slice xs i e = take (e - i) (drop i xs)"

fun forChunk :: "(nat \<Rightarrow> 'a \<Rightarrow> 's \<Rightarrow> 's) \<Rightarrow> nat \<Rightarrow> 'a list \<Rightarrow> 's \<Rightarrow> 's" where
  "forChunk body k [] s = s"
| "forChunk body k (item # chunk) s = forChunk body (Suc k) chunk (body k item s)"

function forChunks :: "(nat \<Rightarrow> 'a \<Rightarrow> 's \<Rightarrow> 's) \<Rightarrow> 'a list \<Rightarrow> nat \<Rightarrow> 's \<Rightarrow> 's" where
  "forChunks body data i s =
     (if i < length data
      then forChunks body data (i + chunkSize)
             (forChunk body i (slice data i (min (i + chunkSize) (length data))) s)
      else s)"
  by pat_completeness auto
termination
  by (relation "measure (\<lambda>(body, data, i, s). length data - i)") (auto simp: chunkSize_def)

section \<open>Duplicate detection: \<open>findDuplicatesInFile\<close>\<close>

text \<open>
  The state of the loop: \<open>seen\<close> (key to index of first occurrence), \<open>duplicates\<close>,
  \<open>duplicateGroups\<close> (a \<open>Map\<close>, kept in insertion order) and \<open>uniqueItems\<close>.
\<close>

record DupState =
  seen :: "string \<rightharpoonup> nat"
  duplicates :: "Transaction list"
  duplicateGroups :: "(string \<times> Transaction list) list"
  uniqueItems :: "Transaction list"

definition initDupState :: DupState where
  "initDupState = \<lparr>seen = Map.empty, duplicates = [], duplicateGroups = [], uniqueItems = []\<rparr>"

text \<open>\<open>data[originalIndex]\<close>; out of range it is \<open>undefined\<close>, which the group would hold
  as a hole; the model keeps the empty record there.\<close>

definition itemAt :: "Transaction list \<Rightarrow> nat \<Rightarrow> Transaction" where
  "itemAt data i = (if i < length data then data ! i else [])"

definition dupStep :: "Transaction list \<Rightarrow> nat \<Rightarrow> Transaction \<Rightarrow> DupState \<Rightarrow> DupState" where
  "dupStep data idx item s =
     (let key = createCompositeKeyFromAllColumns item in
      if key \<noteq> [] then
        (case seen s key of
           Some originalIndex \<Rightarrow>
             s\<lparr>duplicates := duplicates s @ [item],
               duplicateGroups :=
                 (case map_of (duplicateGroups s) key of
                    None \<Rightarrow> AList.update key [itemAt data originalIndex, item] (duplicateGroups s)
                  | Some grp \<Rightarrow> AList.update key (grp @ [item]) (duplicateGroups s))\<rparr>
         | None \<Rightarrow> s\<lparr>seen := (seen s)(key \<mapsto> idx), uniqueItems := uniqueItems s @ [item]\<rparr>)
      else s)"

definition findDuplicatesInFile :: "Transaction list \<Rightarrow> DupState" where
  "findDuplicatesInFile data = forChunks (dupStep data) data 0 initDupState"


subsection \<open>Specification vocabulary for duplicate detection\<close>

text \<open>The records of a dataset that carry a given composite key, in arrival order.\<close>

definition withKey :: "string \<Rightarrow> Transaction list \<Rightarrow> Transaction list" where
  "withKey k xs = filter (\<lambda>x. createCompositeKeyFromAllColumns x = k) xs"


text \<open>
  The loop invariant of \<open>findDuplicatesInFile\<close> after the first \<open>n\<close> rows: \<open>seen\<close> knows
  exactly the non-empty keys met so far and points at their first occurrence; a key has a
  group exactly when it was met at least twice, and the group lists all its records; the
  two output lists partition the keyed rows and keep their order.
\<close>

definition dup_inv :: "Transaction list \<Rightarrow> nat \<Rightarrow> DupState \<Rightarrow> bool" where
  "dup_inv data n s \<longleftrightarrow>
     seen s [] = None \<and>
     (\<forall>k. k \<noteq> [] \<longrightarrow> seen s k = None \<longrightarrow> withKey k (take n data) = []) \<and>
     (\<forall>k i. seen s k = Some i \<longrightarrow>
        withKey k (take n data) \<noteq> [] \<and> i < length data \<and> data ! i = hd (withKey k (take n data))) \<and>
     distinct (map fst (duplicateGroups s)) \<and>
     (\<forall>k. map_of (duplicateGroups s) k =
        (if k \<noteq> [] \<and> 2 \<le> length (withKey k (take n data))
         then Some (withKey k (take n data)) else None)) \<and>
     mset (uniqueItems s) + mset (duplicates s) = mset (filter (\<lambda>x. createCompositeKeyFromAllColumns x \<noteq> []) (take n data)) \<and>
     subseq (uniqueItems s) (take n data) \<and>
     subseq (duplicates s) (take n data)"


text \<open>The dataset of the duplicate-detection scenario: \<open>[{a:"x"},{a:"x"},{a:"y"}]\<close>.\<close>

definition exampleRows :: "Transaction list" where
  "exampleRows = [[(''a'', Str ''x'')], [(''a'', Str ''x'')], [(''a'', Str ''y'')]]"


subsection \<open>Specification vocabulary for key normalisation\<close>

text \<open>Two values that differ at most in the letter case of a string.\<close>

fun caseEq :: "jsval \<Rightarrow> jsval \<Rightarrow> bool" where
  "caseEq (Str s) (Str t) = (toLowerCase s = toLowerCase t)"
| "caseEq v w = (v = w)"

text \<open>Two records with the same columns in the same order whose values differ at most in
  letter case.\<close>

definition differOnlyInCase :: "Transaction \<Rightarrow> Transaction \<Rightarrow> bool" where
  "differOnlyInCase r1 r2 = list_all2 (\<lambda>(k1, v1) (k2, v2). k1 = k2 \<and> caseEq v1 v2) r1 r2"


section \<open>Cross-dataset matching: \<open>compareFilesWithMappings\<close>\<close>

record ColumnMapping =
  file1Column :: string
  file2Column :: string
  isExactMatch :: bool

subsection \<open>\<open>createCompositeKey\<close>\<close>

text \<open>\<open>typeof value === "string"\<close>.\<close>

fun isString :: "jsval \<Rightarrow> bool" where
  "isString (Str s) = True"
| "isString v = False"

text \<open>
  The body of \<open>mappings.forEach\<close>: read the mapped column, turn \<open>null\<close>/\<open>undefined\<close>
  into the empty string, and push the value; a string under a non-exact mapping is lower
  cased and trimmed first.
\<close>

definition keyPart :: "Transaction \<Rightarrow> bool \<Rightarrow> ColumnMapping \<Rightarrow> string" where
  "keyPart item isFile1 mapping =
     (let columnName = (if isFile1 then file1Column mapping else file2Column mapping);
          v = nullToEmpty (getProp item columnName)
      in if \<not> isExactMatch mapping \<and> isString v
         then trim (toLowerCase (jsString v))
         else jsString v)"

definition createCompositeKey :: "Transaction \<Rightarrow> ColumnMapping list \<Rightarrow> bool \<Rightarrow> string" where
  "createCompositeKey item mappings isFile1 = join ''|'' (map (keyPart item isFile1) mappings)"

subsection \<open>The lookup map over dataset 2\<close>

text \<open>
  The body of the first loop: under a non-empty key the global index \<open>i + j\<close> is pushed
  on the key's list, which is created on first use.
\<close>

definition indexStep ::
    "ColumnMapping list \<Rightarrow> nat \<Rightarrow> Transaction \<Rightarrow> (string \<rightharpoonup> nat list) \<Rightarrow> (string \<rightharpoonup> nat list)" where
  "indexStep mappings idx item m =
     (let key = createCompositeKey item mappings False in
      if key \<noteq> [] then
        (let m1 = (if m key = None then m(key \<mapsto> []) else m) in
         case m1 key of
           Some indices \<Rightarrow> m1(key \<mapsto> indices @ [idx])
         | None \<Rightarrow> m1)
      else m)"

subsection \<open>The matching loop over dataset 1\<close>

text \<open>
  \<open>inFile2Only\<close> starts as a copy of \<open>data2\<close>; a matched position is overwritten with
  \<open>null\<close> (\<open>None\<close>).
\<close>

record CompareState =
  matched :: "Transaction list"
  inFile1Only :: "Transaction list"
  inFile2Only :: "Transaction option list"
  file2Map :: "string \<rightharpoonup> nat list"

text \<open>\<open>inFile2Only[matchIndex]\<close> as a value: a row, \<open>null\<close>, or \<open>undefined\<close> out of range.\<close>

definition arrayGet :: "Transaction option list \<Rightarrow> nat \<Rightarrow> jsval" where
  "arrayGet xs i =
     (if i < length xs then (case xs ! i of None \<Rightarrow> Null | Some item \<Rightarrow> Obj item)
      else Undefined)"

text \<open>\<open>inFile2Only[matchIndex] = null\<close>; a write past the end extends the array, the
  positions in between being holes, which \<open>filter\<close> skips like \<open>null\<close>.\<close>

definition arraySetNull :: "Transaction option list \<Rightarrow> nat \<Rightarrow> Transaction option list" where
  "arraySetNull xs i =
     (if i < length xs then xs[i := None] else xs @ replicate (Suc i - length xs) None)"

text \<open>\<open>{...item1, _matchedWith: item2}\<close>: the properties of \<open>item1\<close> in order, with
  \<open>_matchedWith\<close> replaced in place if present and added last otherwise.\<close>

definition withMatchedWith :: "Transaction \<Rightarrow> jsval \<Rightarrow> Transaction" where
  "withMatchedWith item1 item2 = AList.update ''_matchedWith'' item2 item1"

text \<open>
  The body of the second loop.  The test
  \<open>key && file2Map.has(key) && file2Map.get(key).length > 0\<close> succeeds exactly when the
  key is non-empty and its list has a first element; \<open>shift\<close> removes that element from
  the list held in the map.
\<close>

definition matchStep :: "ColumnMapping list \<Rightarrow> nat \<Rightarrow> Transaction \<Rightarrow> CompareState \<Rightarrow> CompareState" where
  "matchStep mappings idx item1 s =
     (let key = createCompositeKey item1 mappings True in
      case (if key \<noteq> [] then file2Map s key else None) of
        Some (matchIndex # indices) \<Rightarrow>
          (let item2 = arrayGet (inFile2Only s) matchIndex in
           s\<lparr>matched := matched s @ [withMatchedWith item1 item2],
             inFile2Only := arraySetNull (inFile2Only s) matchIndex,
             file2Map := (file2Map s)(key \<mapsto> indices)\<rparr>)
      | _ \<Rightarrow> s\<lparr>inFile1Only := inFile1Only s @ [item1]\<rparr>)"

text \<open>\<open>inFile2Only.filter(Boolean)\<close>: a row is an object, hence truthy; \<open>null\<close> goes.\<close>

fun filterBoolean :: "Transaction option list \<Rightarrow> Transaction list" where
  "filterBoolean [] = []"
| "filterBoolean (None # xs) = filterBoolean xs"
| "filterBoolean (Some item # xs) = item # filterBoolean xs"

record CompareResult =
  res_matched :: "Transaction list"
  res_inFile1Only :: "Transaction list"
  res_inFile2Only :: "Transaction list"

definition compareFilesWithMappings ::
    "Transaction list \<Rightarrow> Transaction list \<Rightarrow> ColumnMapping list \<Rightarrow> CompareResult" where
  "compareFilesWithMappings data1 data2 mappings =
     (let file2Map0 = forChunks (indexStep mappings) data2 0 Map.empty;
          s = forChunks (matchStep mappings) data1 0
                \<lparr>matched = [], inFile1Only = [], inFile2Only = map Some data2,
                 file2Map = file2Map0\<rparr>
      in \<lparr>res_matched = matched s, res_inFile1Only = inFile1Only s,
          res_inFile2Only = filterBoolean (inFile2Only s)\<rparr>)"

subsection \<open>Specification vocabulary for matching\<close>

text \<open>The match key of a dataset-1 record and of a dataset-2 record.\<close>

definition key1 :: "ColumnMapping list \<Rightarrow> Transaction \<Rightarrow> string" where
  "key1 mappings item = createCompositeKey item mappings True"

definition key2 :: "ColumnMapping list \<Rightarrow> Transaction \<Rightarrow> string" where
  "key2 mappings item = createCompositeKey item mappings False"

text \<open>
  FIFO pairing, in the words of the specification: the dataset-1 record at position \<open>p\<close>
  with key \<open>k\<close> is the \<open>r\<close>-th arrival with that key (\<open>r\<close> counts the earlier ones); its
  partner is the \<open>r\<close>-th dataset-2 record with key \<open>k\<close>, if the key is non-empty and
  there is one.
\<close>

definition fifoPartner ::
    "ColumnMapping list \<Rightarrow> Transaction list \<Rightarrow> Transaction list \<Rightarrow> nat \<Rightarrow> Transaction option" where
  "fifoPartner mappings data1 data2 p =
     (let k = key1 mappings (data1 ! p);
          r = length (filter (\<lambda>x. key1 mappings x = k) (take p data1));
          candidates = filter (\<lambda>y. key2 mappings y = k) data2
      in if k \<noteq> [] \<and> r < length candidates then Some (candidates ! r) else None)"

definition fifoMatchedUpTo ::
    "ColumnMapping list \<Rightarrow> Transaction list \<Rightarrow> Transaction list \<Rightarrow> nat \<Rightarrow> Transaction list" where
  "fifoMatchedUpTo mappings data1 data2 n =
     concat (map (\<lambda>p. case fifoPartner mappings data1 data2 p of
                        Some item2 \<Rightarrow> [withMatchedWith (data1 ! p) (Obj item2)]
                      | None \<Rightarrow> []) [0..<n])"

definition fifoUnmatched1UpTo ::
    "ColumnMapping list \<Rightarrow> Transaction list \<Rightarrow> Transaction list \<Rightarrow> nat \<Rightarrow> Transaction list" where
  "fifoUnmatched1UpTo mappings data1 data2 n =
     concat (map (\<lambda>p. case fifoPartner mappings data1 data2 p of
                        Some item2 \<Rightarrow> []
                      | None \<Rightarrow> [data1 ! p]) [0..<n])"

definition fifoMatched ::
    "ColumnMapping list \<Rightarrow> Transaction list \<Rightarrow> Transaction list \<Rightarrow> Transaction list" where
  "fifoMatched mappings data1 data2 = fifoMatchedUpTo mappings data1 data2 (length data1)"

definition fifoUnmatched1 ::
    "ColumnMapping list \<Rightarrow> Transaction list \<Rightarrow> Transaction list \<Rightarrow> Transaction list" where
  "fifoUnmatched1 mappings data1 data2 = fifoUnmatched1UpTo mappings data1 data2 (length data1)"

text \<open>The positions of dataset 2 that carry key \<open>k\<close>, in increasing order.\<close>

definition positions2 :: "ColumnMapping list \<Rightarrow> Transaction list \<Rightarrow> string \<Rightarrow> nat list" where
  "positions2 mappings data2 k =
     filter (\<lambda>i. key2 mappings (data2 ! i) = k) [0..<length data2]"

text \<open>The back-references carried by a list of matched entries.\<close>

definition backReferences :: "Transaction list \<Rightarrow> jsval list" where
  "backReferences ms = map (\<lambda>m. getProp m ''_matchedWith'') ms"


subsection \<open>Invariants of the matching loops\<close>

text \<open>The lookup map after the first \<open>n\<close> rows of dataset 2: every non-empty key that occurs is
  bound to the increasing list of its positions.\<close>

definition indexMapUpTo ::
    "ColumnMapping list \<Rightarrow> Transaction list \<Rightarrow> nat \<Rightarrow> (string \<rightharpoonup> nat list)" where
  "indexMapUpTo mappings data2 n =
     (\<lambda>k. let is = filter (\<lambda>i. key2 mappings (data2 ! i) = k) [0..<n]
          in if k \<noteq> [] \<and> is \<noteq> [] then Some is else None)"

text \<open>How many of the first \<open>p\<close> rows of dataset 1 carry key \<open>k\<close>.\<close>

definition arrivals1 :: "ColumnMapping list \<Rightarrow> Transaction list \<Rightarrow> nat \<Rightarrow> string \<Rightarrow> nat" where
  "arrivals1 mappings data1 p k = length (filter (\<lambda>x. key1 mappings x = k) (take p data1))"

text \<open>The invariant of the matching loop after \<open>p\<close> rows of dataset 1: every key's list holds
  the positions not yet claimed, those positions are still live in \<open>inFile2Only\<close>, and the
  outputs so far are the FIFO pairing of the rows seen.\<close>

definition cmp_inv ::
    "ColumnMapping list \<Rightarrow> Transaction list \<Rightarrow> Transaction list \<Rightarrow> nat \<Rightarrow> CompareState \<Rightarrow> bool" where
  "cmp_inv mappings data1 data2 p s \<longleftrightarrow>
     (\<forall>k. file2Map s k =
        (if k \<noteq> [] \<and> positions2 mappings data2 k \<noteq> []
         then Some (drop (arrivals1 mappings data1 p k) (positions2 mappings data2 k)) else None)) \<and>
     length (inFile2Only s) = length data2 \<and>
     (\<forall>k i. i \<in> set (drop (arrivals1 mappings data1 p k) (positions2 mappings data2 k)) \<longrightarrow>
        inFile2Only s ! i = Some (data2 ! i)) \<and>
     matched s = fifoMatchedUpTo mappings data1 data2 p \<and>
     inFile1Only s = fifoUnmatched1UpTo mappings data1 data2 p \<and>
     mset (backReferences (matched s)) + mset (map Obj (filterBoolean (inFile2Only s)))
       = mset (map Obj data2)"

text \<open>The state in which the second loop of \<open>compareFilesWithMappings\<close> ends.\<close>

definition compareLoopState ::
    "Transaction list \<Rightarrow> Transaction list \<Rightarrow> ColumnMapping list \<Rightarrow> CompareState" where
  "compareLoopState data1 data2 mappings =
     forChunks (matchStep mappings) data1 0
       \<lparr>matched = [], inFile1Only = [], inFile2Only = map Some data2,
        file2Map = forChunks (indexStep mappings) data2 0 Map.empty\<rparr>"

text \<open>The mapping of the exact-match scenario: \<open>id\<close> against \<open>id\<close>, exact.\<close>

definition idMapping :: ColumnMapping where
  "idMapping = \<lparr>file1Column = ''id'', file2Column = ''id'', isExactMatch = True\<rparr>"


text \<open>Two non-exact mappings, \<open>ref\<close> against \<open>ref\<close> and \<open>memo\<close> against \<open>memo\<close>, and
  one row for each file in which both mapped columns are present and empty.\<close>

definition refMemoMappings :: "ColumnMapping list" where
  "refMemoMappings =
     [\<lparr>file1Column = ''ref'', file2Column = ''ref'', isExactMatch = False\<rparr>,
      \<lparr>file1Column = ''memo'', file2Column = ''memo'', isExactMatch = False\<rparr>]"

definition emptyColumnsRow1 :: Transaction where
  "emptyColumnsRow1 = [(''id'', Str ''1''), (''ref'', Str []), (''memo'', Null)]"

definition emptyColumnsRow2 :: Transaction where
  "emptyColumnsRow2 = [(''id'', Str ''2''), (''ref'', Null), (''memo'', Str ''  '')]"


section \<open>Result exporter\<close>

text \<open>
  A category handed to the exporter is an array of rows in which an entry may be
  \<open>null\<close> or \<open>undefined\<close> (\<open>None\<close>).  The workbook library is modelled by what the
  exporter asks of it: a sheet is the list of its rows, a workbook the list of its named
  sheets, and the library calls are taken to succeed.
\<close>

definition MAX_CHUNK_SIZE :: nat where
  "MAX_CHUNK_SIZE = 2000"

definition MAX_SAFE_ROWS :: nat where
  "MAX_SAFE_ROWS = 50000"

subsection \<open>\<open>processMatchedItem\<close>\<close>

text \<open>
  The \<open>forEach\<close> over \<open>Object.entries(_matchedWith)\<close>: the value is stored under
  \<open>File2_<key>\<close> unless \<open>key in mainItem\<close> holds for the row as it is at that moment.
\<close>

fun mergeFile2 :: "(string \<times> jsval) list \<Rightarrow> Transaction \<Rightarrow> Transaction" where
  "mergeFile2 [] mainItem = mainItem"
| "mergeFile2 ((key, v) # entries) mainItem =
     mergeFile2 entries
       (if \<not> hasProp key mainItem then AList.update (''File2_'' @ key) v mainItem
        else mainItem)"

text \<open>
  The item is a row, so \<open>!item\<close> is false.  \<open>const { _matchedWith, ...mainItem } = item\<close>
  copies the row without the property.  Nothing in the \<open>try\<close> block can throw on these
  values.
\<close>

definition processMatchedItem :: "Transaction \<Rightarrow> Transaction" where
  "processMatchedItem item =
     (let matchedWith = getProp item ''_matchedWith'' in
      if \<not> truthy matchedWith then item
      else let mainItem = AList.delete ''_matchedWith'' item in
           (case matchedWith of
              Obj entries \<Rightarrow> mergeFile2 entries mainItem
            | _ \<Rightarrow> mainItem))"

subsection \<open>Sheets and workbooks\<close>

datatype SheetRow = TextRow "string list" | HeaderRow "string list" | DataRow Transaction | EmptyRow

type_synonym WorkSheet = "SheetRow list"

type_synonym WorkBook = "(string \<times> WorkSheet) list"

definition aoa_to_sheet :: "string list list \<Rightarrow> WorkSheet" where
  "aoa_to_sheet rows = map TextRow rows"

definition book_append_sheet :: "WorkBook \<Rightarrow> WorkSheet \<Rightarrow> string \<Rightarrow> WorkBook" where
  "book_append_sheet workbook ws sheetName = workbook @ [(sheetName, ws)]"

text \<open>The header of a block of objects: the given header, then every further key in the
  order in which it is first met.\<close>

definition jsonHeader :: "string list \<Rightarrow> Transaction list \<Rightarrow> string list" where
  "jsonHeader header rows =
     foldl (\<lambda>hdr key. if key \<in> set hdr then hdr else hdr @ [key]) header
       (concat (map Object_keys rows))"

text \<open>Writing a block of rows into a sheet from row \<open>origin\<close> on.\<close>

definition writeRows :: "WorkSheet \<Rightarrow> nat \<Rightarrow> SheetRow list \<Rightarrow> WorkSheet" where
  "writeRows ws origin block =
     take origin (ws @ replicate (origin - length ws) EmptyRow) @ block
       @ drop (origin + length block) ws"

text \<open>\<open>XLSX.utils.sheet_add_json(ws, rows, {header, skipHeader, origin})\<close>.\<close>

definition sheet_add_json ::
    "WorkSheet \<Rightarrow> Transaction list \<Rightarrow> string list \<Rightarrow> bool \<Rightarrow> nat \<Rightarrow> WorkSheet" where
  "sheet_add_json ws rows header skipHeader origin =
     writeRows ws origin
       ((if skipHeader then [] else [HeaderRow (jsonHeader header rows)]) @ map DataRow rows)"

text \<open>\<open>XLSX.utils.json_to_sheet(rows, {header})\<close>.\<close>

definition json_to_sheet :: "Transaction list \<Rightarrow> string list \<Rightarrow> WorkSheet" where
  "json_to_sheet rows header = sheet_add_json [] rows header False 0"

subsection \<open>\<open>processSheetData\<close>\<close>

text \<open>\<open>data.filter((item) => item !== null && item !== undefined)\<close>.\<close>

fun validItems :: "Transaction option list \<Rightarrow> Transaction list" where
  "validItems [] = []"
| "validItems (None # xs) = validItems xs"
| "validItems (Some item # xs) = item # validItems xs"

text \<open>
  The two rows of text that head a truncated sheet.  \<open>toLocaleString\<close> is the host's
  number formatting.
\<close>

definition truncationNote :: "(nat \<Rightarrow> string) \<Rightarrow> nat \<Rightarrow> string" where
  "truncationNote toLocaleString totalRows =
     ''Note: This sheet has been limited to '' @ toLocaleString MAX_SAFE_ROWS
       @ '' rows out of '' @ toLocaleString totalRows
       @ '' total rows to prevent browser crashes.''"

definition truncationAdvice :: string where
  "truncationAdvice = ''To export the full dataset, try exporting specific categories ''
       @ ''separately or use a desktop application.''"

text \<open>
  The loop of the chunked branch, with the chunk size computed from the first row
  (it is at least 1): every row is written with \<open>skipHeader\<close> at \<open>rowIndex\<close>, which is
  then incremented.
\<close>

function forChunksOf ::
    "nat \<Rightarrow> (nat \<Rightarrow> 'a \<Rightarrow> 's \<Rightarrow> 's) \<Rightarrow> 'a list \<Rightarrow> nat \<Rightarrow> 's \<Rightarrow> 's" where
  "forChunksOf step body data i s =
     (if i < length data \<and> 0 < step
      then forChunksOf step body data (i + step)
             (forChunk body i (slice data i (min (i + step) (length data))) s)
      else s)"
  by pat_completeness auto
termination
  by (relation "measure (\<lambda>(step, body, data, i, s). length data - i)") auto

definition addRowStep :: "bool \<Rightarrow> nat \<Rightarrow> Transaction \<Rightarrow> WorkSheet \<times> nat \<Rightarrow> WorkSheet \<times> nat" where
  "addRowStep hasMatchedWith idx item wsRow =
     (let processedItem = (if hasMatchedWith then processMatchedItem item else item)
      in (sheet_add_json (fst wsRow) [processedItem] [] True (snd wsRow), Suc (snd wsRow)))"

text \<open>
  \<open>jsonLength\<close> stands for \<open>JSON.stringify(row).length\<close>.  \<open>processMatchedItem\<close> returns
  an object for every row, so the \<open>filter(Boolean)\<close> that follows it keeps every entry.  In the chunked branch the sheet
  is appended to the workbook before its rows are written; the workbook holds the sheet
  by reference, so it ends up with the rows, which is what the model appends.
\<close>

definition processSheetData ::
    "(nat \<Rightarrow> string) \<Rightarrow> (Transaction \<Rightarrow> nat) \<Rightarrow> WorkBook \<Rightarrow> string
       \<Rightarrow> Transaction option list \<Rightarrow> WorkBook" where
  "processSheetData toLocaleString jsonLength workbook sheetName data =
     (if data = [] then
        book_append_sheet workbook (aoa_to_sheet [[''No data available'']]) sheetName
      else
        let validData = validItems data in
        if validData = [] then
          book_append_sheet workbook (aoa_to_sheet [[''No valid data available'']]) sheetName
        else
          let hasMatchedWith = hasProp ''_matchedWith'' (hd validData);
              estimatedRowSize = jsonLength (hd validData);
              chunkSize = (if estimatedRowSize = 0 then MAX_CHUNK_SIZE
                           else max 1 (min MAX_CHUNK_SIZE (5000000 div estimatedRowSize)));
              totalChunks = (length validData + chunkSize - 1) div chunkSize
          in
          if MAX_SAFE_ROWS < length validData then
            (let truncatedData = take MAX_SAFE_ROWS validData;
                 ws = aoa_to_sheet
                        [[truncationNote toLocaleString (length validData)],
                         [truncationAdvice], [[]]];
                 ws = (if hasMatchedWith
                       then sheet_add_json ws (map processMatchedItem truncatedData) [] False 3
                       else sheet_add_json ws truncatedData [] False 3)
             in book_append_sheet workbook ws sheetName)
          else if totalChunks \<le> 1 \<and> length validData \<le> MAX_CHUNK_SIZE then
            (let processedData =
                   (if hasMatchedWith then map processMatchedItem validData else validData)
             in if processedData = [] then
                  book_append_sheet workbook
                    (aoa_to_sheet [[''No valid data available after processing'']]) sheetName
                else book_append_sheet workbook (json_to_sheet processedData []) sheetName)
          else
            (let sampleItem = (if hasMatchedWith then processMatchedItem (hd validData)
                               else hd validData);
                 headers = Object_keys sampleItem;
                 ws = (if headers = [] then aoa_to_sheet [[''No valid headers found'']]
                       else json_to_sheet [[]] headers);
                 ws = fst (forChunksOf chunkSize (addRowStep hasMatchedWith) validData 0 (ws, 1))
             in book_append_sheet workbook ws sheetName))"

subsection \<open>Rows of the export scenarios\<close>

text \<open>A matched entry whose two sides share the column names \<open>id\<close> and \<open>amt\<close>.\<close>

definition sharedColumnsEntry :: Transaction where
  "sharedColumnsEntry =
     [(''id'', Str ''1''), (''amt'', Str ''10''),
      (''_matchedWith'', Obj [(''id'', Str ''1''), (''amt'', Str ''12'')])]"

text \<open>A matched entry that already has a column \<open>File2_x\<close>.\<close>

definition prefixedColumnEntry :: Transaction where
  "prefixedColumnEntry =
     [(''File2_x'', Str ''old''), (''_matchedWith'', Obj [(''x'', Str ''new'')])]"

text \<open>A number formatting without group separators, and a row size, for the scenarios.\<close>

definition digitChar :: "nat \<Rightarrow> char" where
  "digitChar d = ''0123456789'' ! d"

function plainDecimal :: "nat \<Rightarrow> string" where
  "plainDecimal n =
     (if n < 10 then [digitChar n]
      else plainDecimal (n div 10) @ [digitChar (n mod 10)])"
  by pat_completeness auto
termination
  by (relation "measure (\<lambda>n. n)") auto

definition rowSize :: "Transaction \<Rightarrow> nat" where
  "rowSize row = 2 + length (concat (map fst row))"

text \<open>A category of 60,000 rows.\<close>

definition sixtyThousandRows :: "Transaction option list" where
  "sixtyThousandRows = replicate 60000 (Some [(''id'', Str ''1'')])"


section \<open>Orchestration: \<open>processFiles\<close>\<close>

text \<open>
  Reading the files is the work of a collaborator; \<open>processFiles\<close> is modelled on what
  the collaborator returned.  Its result is the list of stages it announced through
  \<open>onProgress\<close> (the announcements of \<open>processFiles\<close> itself, without the percentages and
  without the callbacks of the sub-stages) and either the error it threw or the
  reconciliation result.
\<close>

datatype ProcessError =
    NoColumnMappings
  | NoDataFile1
  | NoDataFile2
  | ColumnNotFoundFile1 string
  | ColumnNotFoundFile2 string

datatype Stage =
    Initializing
  | FetchingHeadersFile1
  | FetchingHeadersFile2
  | MappingsValidated
  | ReadingFile1
  | ReadingFile2
  | ValidatingMappings
  | FindingDuplicatesFile1
  | FindingDuplicatesFile2
  | ComparingFiles
  | ComparingUniqueItems
  | CreatingSummary
  | FinalizingResults
  | ReconciliationComplete

record Summary =
  totalInFile1 :: nat
  totalInFile2 :: nat
  matchedCount :: nat
  inFile1OnlyCount :: nat
  inFile2OnlyCount :: nat
  duplicatesInFile1Count :: nat
  duplicatesInFile2Count :: nat

record ReconciliationResults =
  rr_matched :: "Transaction list"
  rr_inFile1Only :: "Transaction list"
  rr_inFile2Only :: "Transaction list"
  rr_duplicatesInFile1 :: "Transaction list"
  rr_duplicatesInFile2 :: "Transaction list"
  rr_duplicateGroupsInFile1 :: "Transaction list list"
  rr_duplicateGroupsInFile2 :: "Transaction list list"
  rr_columnMappings :: "ColumnMapping list"
  rr_file1SheetName :: string
  rr_file2SheetName :: string
  rr_summary :: Summary

subsection \<open>The array form (reconciliation.ts)\<close>

text \<open>\<open>validateColumnMappings\<close>: the first mapping with a column that is not a property of
  the sample row throws; file 1 is tested before file 2.\<close>

fun validateColumnMappings ::
    "Transaction \<Rightarrow> Transaction \<Rightarrow> ColumnMapping list \<Rightarrow> ProcessError option" where
  "validateColumnMappings file1Sample file2Sample [] = None"
| "validateColumnMappings file1Sample file2Sample (mapping # mappings) =
     (if \<not> hasProp (file1Column mapping) file1Sample
        then Some (ColumnNotFoundFile1 (file1Column mapping))
      else if \<not> hasProp (file2Column mapping) file2Sample
        then Some (ColumnNotFoundFile2 (file2Column mapping))
      else validateColumnMappings file1Sample file2Sample mappings)"

definition processFiles ::
    "string \<Rightarrow> string \<Rightarrow> Transaction list \<Rightarrow> Transaction list \<Rightarrow> ColumnMapping list
       \<Rightarrow> Stage list \<times> (ProcessError + ReconciliationResults)" where
  "processFiles sheet1 sheet2 workbook1Data workbook2Data columnMappings =
     (if columnMappings = [] then ([], Inl NoColumnMappings)
      else if workbook1Data = [] then ([ReadingFile1, ReadingFile2], Inl NoDataFile1)
      else if workbook2Data = [] then ([ReadingFile1, ReadingFile2], Inl NoDataFile2)
      else
        (case validateColumnMappings (hd workbook1Data) (hd workbook2Data) columnMappings of
           Some err \<Rightarrow> ([ReadingFile1, ReadingFile2, ValidatingMappings], Inl err)
         | None \<Rightarrow>
             (let dup1 = findDuplicatesInFile workbook1Data;
                  dup2 = findDuplicatesInFile workbook2Data;
                  cmp = compareFilesWithMappings (uniqueItems dup1) (uniqueItems dup2)
                          columnMappings;
                  summary = \<lparr>totalInFile1 = length workbook1Data,
                             totalInFile2 = length workbook2Data,
                             matchedCount = length (res_matched cmp),
                             inFile1OnlyCount = length (res_inFile1Only cmp),
                             inFile2OnlyCount = length (res_inFile2Only cmp),
                             duplicatesInFile1Count = length (duplicates dup1),
                             duplicatesInFile2Count = length (duplicates dup2)\<rparr>
              in ([ReadingFile1, ReadingFile2, ValidatingMappings, FindingDuplicatesFile1,
                   FindingDuplicatesFile2, ComparingFiles, CreatingSummary,
                   ReconciliationComplete],
                  Inr \<lparr>rr_matched = res_matched cmp,
                       rr_inFile1Only = res_inFile1Only cmp,
                       rr_inFile2Only = res_inFile2Only cmp,
                       rr_duplicatesInFile1 = duplicates dup1,
                       rr_duplicatesInFile2 = duplicates dup2,
                       rr_duplicateGroupsInFile1 = map snd (duplicateGroups dup1),
                       rr_duplicateGroupsInFile2 = map snd (duplicateGroups dup2),
                       rr_columnMappings = columnMappings,
                       rr_file1SheetName = sheet1,
                       rr_file2SheetName = sheet2,
                       rr_summary = summary\<rparr>))))"

subsection \<open>The streamed form\<close>







text \<open>
  \<open>compareUniqueItemStreams\<close>.  The map holds wrappers
  \<open>{...item, _originalIndexInAllFile2: index}\<close>; a wrapper is modelled as the pair of the
  row and the index.  Reading \<open>_originalIndexInAllFile2\<close> from the wrapper gives the index,
  and the copy of the wrapper from which that property is deleted is the row without a
  property of that name.
\<close>

record StreamCompareState =
  streamMatched :: "Transaction list"
  streamInFile1Only :: "Transaction list"
  allFile2UniqueItems :: "Transaction option list"
  streamFile2Map :: "string \<rightharpoonup> (Transaction \<times> nat) list"
  file2CurrentIndex :: nat

definition streamIndexItem ::
    "ColumnMapping list \<Rightarrow> Transaction \<Rightarrow> StreamCompareState \<Rightarrow> StreamCompareState" where
  "streamIndexItem mappings item s =
     (let s1 = s\<lparr>allFile2UniqueItems := allFile2UniqueItems s @ [Some item]\<rparr>;
          key = createCompositeKey item mappings False;
          s2 = (if key \<noteq> [] then
                  (let m1 = (if streamFile2Map s1 key = None
                             then (streamFile2Map s1)(key \<mapsto> []) else streamFile2Map s1) in
                   case m1 key of
                     Some wrappers \<Rightarrow>
                       s1\<lparr>streamFile2Map := m1(key \<mapsto> wrappers @ [(item, file2CurrentIndex s1)])\<rparr>
                   | None \<Rightarrow> s1\<lparr>streamFile2Map := m1\<rparr>)
                else s1)
      in s2\<lparr>file2CurrentIndex := Suc (file2CurrentIndex s2)\<rparr>)"

definition streamMatchItem ::
    "ColumnMapping list \<Rightarrow> Transaction \<Rightarrow> StreamCompareState \<Rightarrow> StreamCompareState" where
  "streamMatchItem mappings item1 s =
     (let key = createCompositeKey item1 mappings True in
      case (if key \<noteq> [] then streamFile2Map s key else None) of
        Some ((wrapped, originalIndex) # potentialMatchesFile2) \<Rightarrow>
          (let file2ActualItem = AList.delete ''_originalIndexInAllFile2'' wrapped in
           s\<lparr>streamFile2Map := (streamFile2Map s)(key \<mapsto> potentialMatchesFile2),
             allFile2UniqueItems := arraySetNull (allFile2UniqueItems s) originalIndex,
             streamMatched := streamMatched s @ [withMatchedWith item1 (Obj file2ActualItem)]\<rparr>)
      | _ \<Rightarrow> s\<lparr>streamInFile1Only := streamInFile1Only s @ [item1]\<rparr>)"

text \<open>The two \<open>for await\<close> loops: an empty chunk is skipped, the items of a chunk are
  taken in order.\<close>

fun forEachChunk :: "('a \<Rightarrow> 's \<Rightarrow> 's) \<Rightarrow> 'a list list \<Rightarrow> 's \<Rightarrow> 's" where
  "forEachChunk body [] s = s"
| "forEachChunk body (chunk # chunks) s =
     (if chunk = [] then forEachChunk body chunks s
      else forEachChunk body chunks (fold body chunk s))"

definition compareUniqueItemStreams ::
    "Transaction list list \<Rightarrow> Transaction list list \<Rightarrow> ColumnMapping list \<Rightarrow> CompareResult" where
  "compareUniqueItemStreams uniqueFile1ItemsStream uniqueFile2ItemsStream mappings =
     (let s0 = \<lparr>streamMatched = [], streamInFile1Only = [], allFile2UniqueItems = [],
                streamFile2Map = Map.empty, file2CurrentIndex = 0\<rparr>;
          s1 = forEachChunk (streamIndexItem mappings) uniqueFile2ItemsStream s0;
          s2 = forEachChunk (streamMatchItem mappings) uniqueFile1ItemsStream s1
      in \<lparr>res_matched = streamMatched s2, res_inFile1Only = streamInFile1Only s2,
          res_inFile2Only = filterBoolean (allFile2UniqueItems s2)\<rparr>)"







subsection \<open>Relating the streamed matcher to the array matcher\<close>

text \<open>No row has a property named \<open>_originalIndexInAllFile2\<close>, the name that
  \<open>compareUniqueItemStreams\<close> uses for its bookkeeping.\<close>

definition noIndexProperty :: "Transaction list \<Rightarrow> bool" where
  "noIndexProperty rows = list_all (\<lambda>row. \<not> hasProp ''_originalIndexInAllFile2'' row) rows"

text \<open>The lookup map of the streamed matcher that corresponds to a lookup map of positions:
  every position is wrapped together with its row.\<close>

definition wrapIndices :: "Transaction list \<Rightarrow> (string \<rightharpoonup> nat list) \<Rightarrow> (string \<rightharpoonup> (Transaction \<times> nat) list)" where
  "wrapIndices data2 m = (\<lambda>k. map_option (map (\<lambda>i. (data2 ! i, i))) (m k))"

text \<open>The state of the streamed matcher and the state of the array matcher agree.\<close>

definition stream_rel :: "Transaction list \<Rightarrow> StreamCompareState \<Rightarrow> CompareState \<Rightarrow> bool" where
  "stream_rel data2 s a \<longleftrightarrow>
     streamMatched s = matched a \<and> streamInFile1Only s = inFile1Only a \<and>
     allFile2UniqueItems s = inFile2Only a \<and>
     streamFile2Map s = wrapIndices data2 (file2Map a)"

text \<open>The two streams of the tie-break scenario: two records with \<open>id\<close> 1 on each side; the
  first stream yields an empty chunk in between.\<close>

definition fifoStream1 :: "Transaction list list" where
  "fifoStream1 = [[[(''id'', Str ''1''), (''n'', Str ''a'')]], [], [[(''id'', Str ''1''), (''n'', Str ''b'')]]]"

definition fifoStream2 :: "Transaction list list" where
  "fifoStream2 = [[[(''id'', Str ''1''), (''n'', Str ''c'')], [(''id'', Str ''1''), (''n'', Str ''d'')]]]"


section \<open>\<open>compareFilesWithMappings\<close> on a store\<close>

text \<open>
  To speak about mutation, arrays and row objects live in a store and are named by their
  address, the position at which they were allocated; a cell of an array or a property
  of an object holds a primitive value or the address of an object.  The lookup map
  \<open>file2Map\<close> and its index lists never leave the function and stay values.  A chunk
  \<open>data.slice(i, end)\<close> is a temporary copy that is only read; the model reads the
  elements of the input array instead.  A property read sees the own properties of the
  object only: the keys decide which records are paired, not which cells are written.
\<close>

datatype hval = HUndefined | HNull | HStr string | HNum string | HRef nat

type_synonym hobject = "(string \<times> hval) list"

record Store =
  objects :: "hobject list"
  arrays :: "hval list list"

definition allocObject :: "Store \<Rightarrow> hobject \<Rightarrow> Store \<times> nat" where
  "allocObject st obj = (st\<lparr>objects := objects st @ [obj]\<rparr>, length (objects st))"

definition allocArray :: "Store \<Rightarrow> hval list \<Rightarrow> Store \<times> nat" where
  "allocArray st xs = (st\<lparr>arrays := arrays st @ [xs]\<rparr>, length (arrays st))"

text \<open>\<open>array.push(v)\<close> on the array at address \<open>a\<close>.\<close>

definition pushAt :: "Store \<Rightarrow> nat \<Rightarrow> hval \<Rightarrow> Store" where
  "pushAt st a v = st\<lparr>arrays := (arrays st)[a := arrays st ! a @ [v]]\<rparr>"

text \<open>\<open>array[i] = null\<close> on the array at address \<open>a\<close>; a write past the end extends it.\<close>

definition setNullAt :: "Store \<Rightarrow> nat \<Rightarrow> nat \<Rightarrow> Store" where
  "setNullAt st a i =
     st\<lparr>arrays := (arrays st)[a :=
          (let xs = arrays st ! a in
           if i < length xs then xs[i := HNull]
           else xs @ replicate (i - length xs) HUndefined @ [HNull])]\<rparr>"

text \<open>\<open>array[i]\<close> on the array at address \<open>a\<close>.\<close>

definition readAt :: "Store \<Rightarrow> nat \<Rightarrow> nat \<Rightarrow> hval" where
  "readAt st a i = (let xs = arrays st ! a in if i < length xs then xs ! i else HUndefined)"

text \<open>
  The properties that \<open>item[columnName]\<close> and \<open>{...item}\<close> see: those of the object the
  item refers to; none for a primitive; for \<open>null\<close> and \<open>undefined\<close> the property read
  throws a \<open>TypeError\<close> (\<open>None\<close>).
\<close>

definition fieldsOf :: "Store \<Rightarrow> hval \<Rightarrow> hobject option" where
  "fieldsOf st item =
     (case item of
        HRef a \<Rightarrow> if a < length (objects st) then Some (objects st ! a) else None
      | HStr s \<Rightarrow> Some []
      | HNum s \<Rightarrow> Some []
      | _ \<Rightarrow> None)"

fun hString :: "hval \<Rightarrow> string" where
  "hString HUndefined = ''undefined''"
| "hString HNull = ''null''"
| "hString (HStr s) = s"
| "hString (HNum s) = s"
| "hString (HRef a) = ''[object Object]''"

fun hIsString :: "hval \<Rightarrow> bool" where
  "hIsString (HStr s) = True"
| "hIsString v = False"

fun hTruthy :: "hval \<Rightarrow> bool" where
  "hTruthy HUndefined = False"
| "hTruthy HNull = False"
| "hTruthy (HStr s) = (s \<noteq> [])"
| "hTruthy (HNum s) = (s \<noteq> ''0'' \<and> s \<noteq> ''NaN'')"
| "hTruthy (HRef a) = True"

definition hKeyPart :: "Store \<Rightarrow> hval \<Rightarrow> bool \<Rightarrow> ColumnMapping \<Rightarrow> string option" where
  "hKeyPart st item isFile1 mapping =
     (case fieldsOf st item of
        None \<Rightarrow> None
      | Some props \<Rightarrow>
          (let columnName = (if isFile1 then file1Column mapping else file2Column mapping);
               v0 = (case map_of props columnName of None \<Rightarrow> HUndefined | Some v \<Rightarrow> v);
               v = (if v0 = HNull \<or> v0 = HUndefined then HStr [] else v0)
           in Some (if \<not> isExactMatch mapping \<and> hIsString v
                    then trim (toLowerCase (hString v))
                    else hString v)))"

definition hCreateCompositeKey ::
    "Store \<Rightarrow> hval \<Rightarrow> ColumnMapping list \<Rightarrow> bool \<Rightarrow> string option" where
  "hCreateCompositeKey st item mappings isFile1 =
     map_option (join ''|'') (those (map (hKeyPart st item isFile1) mappings))"

text \<open>The state of the two loops: the store, whether an exception was thrown (the loops
  then do nothing more), the lookup map, and the addresses of the three result arrays.\<close>

record HCompare =
  store :: Store
  thrown :: bool
  hFile2Map :: "string \<rightharpoonup> nat list"
  matchedAt :: nat
  inFile1OnlyAt :: nat
  inFile2OnlyAt :: nat

definition hIndexStep :: "ColumnMapping list \<Rightarrow> nat \<Rightarrow> hval \<Rightarrow> HCompare \<Rightarrow> HCompare" where
  "hIndexStep mappings idx item s =
     (if thrown s then s
      else case hCreateCompositeKey (store s) item mappings False of
        None \<Rightarrow> s\<lparr>thrown := True\<rparr>
      | Some key \<Rightarrow>
          if key \<noteq> [] then
            (let m = hFile2Map s;
                 m1 = (if m key = None then m(key \<mapsto> []) else m) in
             case m1 key of
               Some indices \<Rightarrow> s\<lparr>hFile2Map := m1(key \<mapsto> indices @ [idx])\<rparr>
             | None \<Rightarrow> s\<lparr>hFile2Map := m1\<rparr>)
          else s)"

definition hMatchStep :: "ColumnMapping list \<Rightarrow> nat \<Rightarrow> hval \<Rightarrow> HCompare \<Rightarrow> HCompare" where
  "hMatchStep mappings idx item1 s =
     (if thrown s then s
      else case hCreateCompositeKey (store s) item1 mappings True of
        None \<Rightarrow> s\<lparr>thrown := True\<rparr>
      | Some key \<Rightarrow>
          (case (if key \<noteq> [] then hFile2Map s key else None) of
             Some (matchIndex # indices) \<Rightarrow>
               (case fieldsOf (store s) item1 of
                  None \<Rightarrow> s\<lparr>thrown := True\<rparr>
                | Some props1 \<Rightarrow>
                    (let item2 = readAt (store s) (inFile2OnlyAt s) matchIndex;
                         created = allocObject (store s)
                                     (AList.update ''_matchedWith'' item2 props1);
                         st1 = pushAt (fst created) (matchedAt s) (HRef (snd created));
                         st2 = setNullAt st1 (inFile2OnlyAt s) matchIndex
                     in s\<lparr>store := st2, hFile2Map := (hFile2Map s)(key \<mapsto> indices)\<rparr>))
           | _ \<Rightarrow> s\<lparr>store := pushAt (store s) (inFile1OnlyAt s) item1\<rparr>))"

datatype HeapError = TypeError

text \<open>
  The function takes the addresses of \<open>data1\<close> and \<open>data2\<close> and returns the final store
  with the addresses of \<open>matched\<close>, \<open>inFile1Only\<close> and the filtered \<open>inFile2Only\<close>, or the
  exception.  The arrays \<open>matched\<close>, \<open>inFile1Only\<close> and the copy \<open>[...data2]\<close> are
  allocated first, in this order.
\<close>

definition hCompareFilesWithMappings ::
    "Store \<Rightarrow> nat \<Rightarrow> nat \<Rightarrow> ColumnMapping list \<Rightarrow> Store \<times> (HeapError + nat \<times> nat \<times> nat)" where
  "hCompareFilesWithMappings st data1At data2At mappings =
     (if \<not> (data1At < length (arrays st) \<and> data2At < length (arrays st))
      then (st, Inl TypeError)
      else
        let m = allocArray st [];
            u = allocArray (fst m) [];
            c = allocArray (fst u) (arrays st ! data2At);
            s0 = \<lparr>store = fst c, thrown = False, hFile2Map = Map.empty,
                  matchedAt = snd m, inFile1OnlyAt = snd u, inFile2OnlyAt = snd c\<rparr>;
            s1 = forChunks (hIndexStep mappings) (arrays st ! data2At) 0 s0;
            s2 = forChunks (hMatchStep mappings) (arrays st ! data1At) 0 s1
        in if thrown s2 then (store s2, Inl TypeError)
           else
             let f = allocArray (store s2)
                       (filter hTruthy (arrays (store s2) ! inFile2OnlyAt s2))
             in (fst f, Inr (matchedAt s2, inFile1OnlyAt s2, snd f)))"

subsection \<open>Frame vocabulary\<close>

text \<open>Every object and array of the first store is, unchanged, in the second.\<close>

definition preserves :: "Store \<Rightarrow> Store \<Rightarrow> bool" where
  "preserves st st' \<longleftrightarrow> prefix (objects st) (objects st') \<and> prefix (arrays st) (arrays st')"

text \<open>A value that refers to an object allocated after the store \<open>st\<close> was taken.\<close>

fun freshRef :: "Store \<Rightarrow> hval \<Rightarrow> bool" where
  "freshRef st (HRef a) = (length (objects st) \<le> a)"
| "freshRef st v = False"

text \<open>The invariant of the loops with respect to the store \<open>st\<close> of the call.\<close>

definition frame_inv :: "Store \<Rightarrow> HCompare \<Rightarrow> bool" where
  "frame_inv st s \<longleftrightarrow>
     preserves st (store s) \<and>
     length (arrays st) \<le> matchedAt s \<and> matchedAt s < inFile1OnlyAt s \<and>
     inFile1OnlyAt s < inFile2OnlyAt s \<and> inFile2OnlyAt s < length (arrays (store s)) \<and>
     list_all (freshRef st) (arrays (store s) ! matchedAt s)"

text \<open>A store with two rows in \<open>data1\<close> (array 0) and two rows in \<open>data2\<close> (array 1).\<close>

definition exampleStore :: Store where
  "exampleStore =
     \<lparr>objects = [[(''id'', HStr ''1'')], [(''id'', HStr ''2'')],
                 [(''id'', HStr ''1'')], [(''id'', HStr ''3'')]],
      arrays = [[HRef 0, HRef 1], [HRef 2, HRef 3]]\<rparr>"


section \<open>Properties of duplicate detection\<close>

subsection \<open>Chunked loops visit every element once, in order\<close>

lemma forChunk_append:
  "forChunk body k (xs @ ys) s = forChunk body (k + length xs) ys (forChunk body k xs s)"
  by (induction xs arbitrary: k s) auto

lemma forChunks_flat:
  "forChunks body data i s = forChunk body i (drop i data) s"
proof (induction body data i s rule: forChunks.induct)
  case (1 body data i s)
  show ?case
  proof (cases "i < length data")
    case False
    then show ?thesis by simp
  next
    case True
    let ?e = "min (i + chunkSize) (length data)"
    let ?chunk = "slice data i ?e"
    let ?s' = "forChunk body i ?chunk s"
    have step: "forChunks body data i s = forChunk body (i + chunkSize) (drop (i + chunkSize) data) ?s'"
      using True "1.IH" by (subst forChunks.simps) simp
    show ?thesis
    proof (cases "i + chunkSize \<le> length data")
      case le: True
      have chunk: "?chunk = take chunkSize (drop i data)"
        using le by (simp add: slice_def min_def)
      have "drop i data = ?chunk @ drop (i + chunkSize) data"
        unfolding chunk by (metis append_take_drop_id drop_drop add.commute)
      moreover have "length ?chunk = chunkSize"
        unfolding chunk using le by simp
      ultimately show ?thesis
        using step forChunk_append [of body i ?chunk "drop (i + chunkSize) data" s] by simp
    next
      case gt: False
      have chunk: "?chunk = drop i data"
        using gt by (simp add: slice_def min_def)
      have "drop (i + chunkSize) data = []"
        using gt by simp
      then show ?thesis
        using step chunk by simp
    qed
  qed
qed

subsection \<open>The invariant of \<open>findDuplicatesInFile\<close>\<close>

lemma withKey_snoc:
  "withKey k (xs @ [x]) = (if createCompositeKeyFromAllColumns x = k then withKey k xs @ [x] else withKey k xs)"
  by (simp add: withKey_def)

lemma dup_invI:
  assumes "seen s [] = None"
    and "\<And>k. k \<noteq> [] \<Longrightarrow> seen s k = None \<Longrightarrow> withKey k (take n data) = []"
    and "\<And>k i. seen s k = Some i \<Longrightarrow>
        withKey k (take n data) \<noteq> [] \<and> i < length data \<and> data ! i = hd (withKey k (take n data))"
    and "distinct (map fst (duplicateGroups s))"
    and "\<And>k. map_of (duplicateGroups s) k =
        (if k \<noteq> [] \<and> 2 \<le> length (withKey k (take n data))
         then Some (withKey k (take n data)) else None)"
    and "mset (uniqueItems s) + mset (duplicates s) = mset (filter (\<lambda>x. createCompositeKeyFromAllColumns x \<noteq> []) (take n data))"
    and "subseq (uniqueItems s) (take n data)"
    and "subseq (duplicates s) (take n data)"
  shows "dup_inv data n s"
  unfolding dup_inv_def using assms by blast

lemma dup_inv_init: "dup_inv data 0 initDupState"
  by (simp add: dup_inv_def initDupState_def withKey_def)

lemma subseq_snoc: "subseq xs ys \<Longrightarrow> subseq (xs @ [x]) (ys @ [x])"
  by (simp add: list_emb_append_mono)

lemma subseq_snoc2: "subseq xs ys \<Longrightarrow> subseq xs (ys @ [x])"
  by (rule list_emb_prefix)

lemma dup_inv_step:
  assumes inv: "dup_inv data n s" and n: "n < length data"
  shows "dup_inv data (Suc n) (dupStep data n (data ! n) s)"
proof -
  let ?x = "data ! n"
  let ?key = "createCompositeKeyFromAllColumns ?x"
  let ?pre = "take n data"
  let ?s' = "dupStep data n ?x s"
  have tk: "take (Suc n) data = ?pre @ [?x]"
    using n by (simp add: take_Suc_conv_app_nth)
  have seen0: "seen s [] = None"
    and seenN: "\<And>k. k \<noteq> [] \<Longrightarrow> seen s k = None \<Longrightarrow> withKey k ?pre = []"
    and seenS: "\<And>k i. seen s k = Some i \<Longrightarrow>
        withKey k ?pre \<noteq> [] \<and> i < length data \<and> data ! i = hd (withKey k ?pre)"
    and dist: "distinct (map fst (duplicateGroups s))"
    and grp: "\<And>k. map_of (duplicateGroups s) k =
        (if k \<noteq> [] \<and> 2 \<le> length (withKey k ?pre) then Some (withKey k ?pre) else None)"
    and ms: "mset (uniqueItems s) + mset (duplicates s) = mset (filter (\<lambda>x. createCompositeKeyFromAllColumns x \<noteq> []) ?pre)"
    and su: "subseq (uniqueItems s) ?pre" and sd: "subseq (duplicates s) ?pre"
    using inv unfolding dup_inv_def by blast+
  show ?thesis
  proof (cases "?key = []")
    case True
    have step: "?s' = s"
      using True by (simp add: dupStep_def)
    have wk: "withKey k (?pre @ [?x]) = withKey k ?pre" if "k \<noteq> []" for k
      using True that by (auto simp: withKey_snoc)
    have g: "map_of (duplicateGroups s) k =
        (if k \<noteq> [] \<and> 2 \<le> length (withKey k (?pre @ [?x])) then Some (withKey k (?pre @ [?x])) else None)" for k
      using grp [of k] wk [of k] by (cases "k = []") simp_all
    have skN: "k \<noteq> [] \<Longrightarrow> seen s k = None \<Longrightarrow> withKey k (?pre @ [?x]) = []" for k
      using seenN [of k] wk [of k] by simp
    have skS: "seen s k = Some i \<Longrightarrow>
        withKey k (?pre @ [?x]) \<noteq> [] \<and> i < length data \<and> data ! i = hd (withKey k (?pre @ [?x]))" for k i
      using seenS [of k i] wk [of k] seen0 by (cases "k = []") simp_all
    show ?thesis
      unfolding step tk
      apply (rule dup_invI; (unfold tk)?)
      subgoal using seen0 by simp
      subgoal for k using skN [of k] by simp
      subgoal for k i using skS [of k i] by simp
      subgoal using dist by simp
      subgoal for k using g [of k] by simp
      subgoal using ms True by simp
      subgoal using su by (simp add: subseq_snoc2)
      subgoal using sd by (simp add: subseq_snoc2)
      done
  next
    case nonempty: False
    show ?thesis
    proof (cases "seen s ?key")
      case None
      have emp: "withKey ?key ?pre = []"
        using seenN [OF nonempty] None by simp
      have step: "?s' = s\<lparr>seen := (seen s)(?key \<mapsto> n), uniqueItems := uniqueItems s @ [?x]\<rparr>"
        using nonempty None by (simp add: dupStep_def Let_def)
      have skN: "k \<noteq> [] \<Longrightarrow> ((seen s)(?key \<mapsto> n)) k = None \<Longrightarrow> withKey k (?pre @ [?x]) = []" for k
        using seenN [of k] by (cases "k = ?key") (simp_all add: withKey_snoc)
      have skS: "((seen s)(?key \<mapsto> n)) k = Some i \<Longrightarrow>
          withKey k (?pre @ [?x]) \<noteq> [] \<and> i < length data \<and> data ! i = hd (withKey k (?pre @ [?x]))" for k i
        using seenS [of k i] emp n by (cases "k = ?key") (simp_all add: withKey_snoc)
      have g: "map_of (duplicateGroups s) k =
        (if k \<noteq> [] \<and> 2 \<le> length (withKey k (?pre @ [?x])) then Some (withKey k (?pre @ [?x])) else None)" for k
        using grp [of k] emp by (cases "k = ?key") (simp_all add: withKey_snoc)
      show ?thesis
        unfolding step tk
        apply (rule dup_invI; (unfold tk)?)
        subgoal using seen0 nonempty by simp
        subgoal for k using skN [of k] by simp
        subgoal for k i using skS [of k i] by simp
        subgoal using dist by simp
        subgoal for k using g [of k] by simp
        subgoal using ms nonempty by simp
        subgoal using su by (simp add: subseq_snoc)
        subgoal using sd by (simp add: subseq_snoc2)
        done
    next
      case (Some i)
      have ne: "withKey ?key ?pre \<noteq> []"
        and hd: "data ! i = hd (withKey ?key ?pre)" and i: "i < length data"
        using seenS [OF Some] by simp_all
      have skN: "k \<noteq> [] \<Longrightarrow> seen s k = None \<Longrightarrow> withKey k (?pre @ [?x]) = []" for k
        using seenN [of k] Some by (cases "k = ?key") (simp_all add: withKey_snoc)
      have skS: "seen s k = Some j \<Longrightarrow>
          withKey k (?pre @ [?x]) \<noteq> [] \<and> j < length data \<and> data ! j = hd (withKey k (?pre @ [?x]))" for k j
        using seenS [of k j] by (cases "k = ?key") (simp_all add: withKey_snoc)
      let ?grp' = "withKey ?key ?pre @ [?x]"
      have step: "?s' = s\<lparr>duplicates := duplicates s @ [?x],
                          duplicateGroups := AList.update ?key ?grp' (duplicateGroups s)\<rparr>"
      proof (cases "map_of (duplicateGroups s) ?key")
        case None
        then have "length (withKey ?key ?pre) < 2"
          using grp [of ?key] nonempty by (simp split: if_splits)
        with ne hd have one: "withKey ?key ?pre = [data ! i]"
          by (cases "withKey ?key ?pre") auto
        show ?thesis
          using nonempty Some None one i by (simp add: dupStep_def itemAt_def Let_def)
      next
        case (Some g)
        then have "g = withKey ?key ?pre"
          using grp [of ?key] by (simp split: if_splits)
        then show ?thesis
          using nonempty \<open>seen s ?key = Some i\<close> Some by (simp add: dupStep_def Let_def)
      qed
      have two: "2 \<le> length ?grp'"
        using ne by (cases "withKey ?key ?pre") auto
      have g: "map_of (AList.update ?key ?grp' (duplicateGroups s)) k =
        (if k \<noteq> [] \<and> 2 \<le> length (withKey k (?pre @ [?x])) then Some (withKey k (?pre @ [?x])) else None)" for k
      proof (cases "k = ?key")
        case True
        then show ?thesis using nonempty two by (simp add: update_conv' withKey_snoc)
      next
        case False
        then show ?thesis using grp [of k] by (simp add: update_conv' withKey_snoc)
      qed
      show ?thesis
        unfolding step tk
        apply (rule dup_invI; (unfold tk)?)
        subgoal using seen0 by simp
        subgoal for k using skN [of k] by simp
        subgoal for k j using skS [of k j] by simp
        subgoal using dist by (simp add: distinct_update)
        subgoal for k using g [of k] by simp
        subgoal using ms nonempty by simp
        subgoal using su by (simp add: subseq_snoc2)
        subgoal using sd by (simp add: subseq_snoc)
        done
    qed
  qed
qed

lemma dup_inv_forChunk:
  "dup_inv data n s \<Longrightarrow> drop n data = xs \<Longrightarrow>
   dup_inv data (length data) (forChunk (dupStep data) n xs s)"
proof (induction xs arbitrary: n s)
  case Nil
  then have "take n data = take (length data) data" by simp
  then have "dup_inv data (length data) s = dup_inv data n s"
    unfolding dup_inv_def by (simp only:)
  with Nil.prems(1) show ?case by simp
next
  case (Cons x xs)
  from Cons.prems(2) have n: "n < length data" and x: "data ! n = x" and rest: "drop (Suc n) data = xs"
    by (metis drop_eq_Nil2 list.distinct(1) not_le, metis nth_via_drop, metis drop_Suc tl_drop list.sel(3))
  from dup_inv_step [OF Cons.prems(1) n] have "dup_inv data (Suc n) (dupStep data n x s)"
    by (simp add: x)
  from Cons.IH [OF this rest] show ?case by simp
qed

lemma findDuplicatesInFile_inv: "dup_inv data (length data) (findDuplicatesInFile data)"
  unfolding findDuplicatesInFile_def forChunks_flat
  by (rule dup_inv_forChunk [OF dup_inv_init]) simp


lemma find_filter_hd: "filter P xs \<noteq> [] \<Longrightarrow> find P xs = Some (hd (filter P xs))"
  by (induction xs) auto

text \<open>
  Claim C5 (duplicate groups).  Every group returned by \<open>findDuplicatesInFile\<close> has at least
  two records, holds all records of its key in arrival order, and starts with the first
  record of the dataset that has the key; a key that at most one record carries has no
  group.
\<close>

theorem duplicate_groups_invariant:
  "(\<forall>(k, g) \<in> set (duplicateGroups (findDuplicatesInFile data)).
       2 \<le> length g \<and> g = withKey k data
       \<and> find (\<lambda>x. createCompositeKeyFromAllColumns x = k) data = Some (hd g))
   \<and> (\<forall>k. length (withKey k data) \<le> 1 \<longrightarrow>
          k \<notin> fst ` set (duplicateGroups (findDuplicatesInFile data)))"
proof -
  let ?r = "findDuplicatesInFile data"
  have inv: "dup_inv data (length data) ?r"
    by (rule findDuplicatesInFile_inv)
  then have dist: "distinct (map fst (duplicateGroups ?r))"
    and grp: "\<And>k. map_of (duplicateGroups ?r) k =
        (if k \<noteq> [] \<and> 2 \<le> length (withKey k data) then Some (withKey k data) else None)"
    unfolding dup_inv_def by simp_all
  have a: "2 \<le> length g \<and> g = withKey k data
       \<and> find (\<lambda>x. createCompositeKeyFromAllColumns x = k) data = Some (hd g)"
    if "(k, g) \<in> set (duplicateGroups ?r)" for k g
  proof -
    from that dist have "map_of (duplicateGroups ?r) k = Some g" by simp
    with grp [of k] have g: "g = withKey k data" and two: "2 \<le> length (withKey k data)"
      by (simp_all split: if_splits)
    from two have "filter (\<lambda>x. createCompositeKeyFromAllColumns x = k) data \<noteq> []"
      by (auto simp: withKey_def)
    from find_filter_hd [OF this] g two show ?thesis by (simp add: withKey_def)
  qed
  have b: "k \<notin> fst ` set (duplicateGroups ?r)" if "length (withKey k data) \<le> 1" for k
  proof -
    from that grp [of k] have "map_of (duplicateGroups ?r) k = None" by simp
    then show ?thesis by (simp add: map_of_eq_None_iff)
  qed
  from a b show ?thesis by blast
qed

theorem duplicate_groups_invariant_witness:
  "(''a:x'', [[(''a'', Str ''x'')], [(''a'', Str ''x'')]])
      \<in> set (duplicateGroups (findDuplicatesInFile exampleRows))
   \<and> find (\<lambda>x. createCompositeKeyFromAllColumns x = ''a:x'') exampleRows
        = Some [(''a'', Str ''x'')]
   \<and> length (withKey ''a:y'' exampleRows) \<le> 1
   \<and> ''a:y'' \<notin> fst ` set (duplicateGroups (findDuplicatesInFile exampleRows))"
proof -
  have groups: "duplicateGroups (findDuplicatesInFile exampleRows)
      = [(''a:x'', [[(''a'', Str ''x'')], [(''a'', Str ''x'')]])]"
    by code_simp
  have once: "length (withKey ''a:y'' exampleRows) \<le> 1"
    by code_simp
  from duplicate_groups_invariant [of exampleRows] groups once show ?thesis
    by auto
qed

text \<open>
  Claim C6 (classification).  The unique items and the duplicates together are, as
  multisets, the records of the dataset that have a non-empty composite key, and each of
  the two lists is a subsequence of the dataset, so arrival order is kept.
\<close>

theorem dataset_partition:
  "mset (uniqueItems (findDuplicatesInFile data)) + mset (duplicates (findDuplicatesInFile data))
     = mset (filter (\<lambda>x. createCompositeKeyFromAllColumns x \<noteq> []) data)
   \<and> subseq (uniqueItems (findDuplicatesInFile data)) data
   \<and> subseq (duplicates (findDuplicatesInFile data)) data"
  using findDuplicatesInFile_inv [of data] unfolding dup_inv_def by simp


section \<open>Properties of the composite keys\<close>

lemma caseEq_refl: "caseEq v v"
  by (cases v) auto

lemma caseEq_getProp:
  "differOnlyInCase r1 r2 \<Longrightarrow> caseEq (getProp r1 c) (getProp r2 c)"
  unfolding differOnlyInCase_def
  by (induction r1 r2 rule: list_all2_induct) (auto simp: getProp_def caseEq_refl)

lemma caseEq_normalize:
  "caseEq v w \<Longrightarrow> toLowerCase (jsString v) = toLowerCase (jsString w)"
  by (cases v; cases w) auto

lemma caseEq_null:
  "caseEq v w \<Longrightarrow> (v = Undefined \<longleftrightarrow> w = Undefined) \<and> (v = Null \<longleftrightarrow> w = Null)"
  by (cases v; cases w) auto

lemma optionKeyParts_default:
  "optionKeyParts defaultOptions item cols =
     map (\<lambda>c. c @ '':'' @ trim (toLowerCase (jsString (getProp item c))))
       (filter (\<lambda>c. getProp item c \<noteq> Undefined \<and> getProp item c \<noteq> Null) cols)"
  by (induction cols) (auto simp: defaultOptions_def normalizeValue_def Let_def)

lemma allColumnsKeyParts_eq:
  "allColumnsKeyParts item cols =
     map (\<lambda>c. c @ '':'' @ trim (jsString (nullToEmpty (getProp item c))))
       (filter (\<lambda>c. \<not> startsWith c ''_'') cols)"
  by (induction cols) auto

lemma optionKeyParts_caseEq:
  assumes "differOnlyInCase r1 r2"
  shows "optionKeyParts defaultOptions r1 cols = optionKeyParts defaultOptions r2 cols"
proof -
  have a: "toLowerCase (jsString (getProp r1 c)) = toLowerCase (jsString (getProp r2 c))" for c
    using caseEq_getProp [OF assms, of c] by (rule caseEq_normalize)
  have b: "(getProp r1 c \<noteq> Undefined \<and> getProp r1 c \<noteq> Null)
       = (getProp r2 c \<noteq> Undefined \<and> getProp r2 c \<noteq> Null)" for c
    using caseEq_null [OF caseEq_getProp [OF assms, of c]] by simp
  show ?thesis
    unfolding optionKeyParts_default by (simp add: a b cong: filter_cong)
qed

text \<open>
  Claim C4, as stated, fails on \<open>createCompositeKeyFromAllColumns\<close>, the all-columns key
  that \<open>findDuplicatesInFile\<close> uses: two records that differ only in letter case get
  different keys, and a \<open>null\<close> column contributes \<open>a:\<close> to the key.
\<close>

theorem allColumns_key_counterexample:
  "createCompositeKeyFromAllColumns [(''a'', Str ''X'')]
     \<noteq> createCompositeKeyFromAllColumns [(''a'', Str ''x'')]
   \<and> createCompositeKeyFromAllColumns [(''a'', Null)] = ''a:''"
  by code_simp

text \<open>
  Claim C4, amended.  In the key derivation of \<open>findDuplicates\<close> with the default options
  each value is lower cased and trimmed and a \<open>null\<close>/\<open>undefined\<close> column contributes
  nothing, so records that differ only in letter case receive equal keys there.  The key
  \<open>createCompositeKeyFromAllColumns\<close> only trims: every column whose name does not start
  with an underscore contributes, in sorted order, its name and the trimmed text of its
  value, the empty text for \<open>null\<close>/\<open>undefined\<close>.
\<close>

theorem duplicate_key_normalisation:
  "findDuplicates_compositeKey defaultOptions cols item =
     join ''|'' (map (\<lambda>c. c @ '':'' @ trim (toLowerCase (jsString (getProp item c))))
       (filter (\<lambda>c. getProp item c \<noteq> Undefined \<and> getProp item c \<noteq> Null) cols))
   \<and> (differOnlyInCase r1 r2 \<longrightarrow>
        findDuplicates_compositeKey defaultOptions cols r1
          = findDuplicates_compositeKey defaultOptions cols r2)
   \<and> createCompositeKeyFromAllColumns item =
     join ''|'' (map (\<lambda>c. c @ '':'' @ trim (jsString (nullToEmpty (getProp item c))))
       (filter (\<lambda>c. \<not> startsWith c ''_'') (sort (Object_keys item))))"
  using optionKeyParts_caseEq [of r1 r2 cols]
  by (simp add: findDuplicates_compositeKey_def optionKeyParts_default
      createCompositeKeyFromAllColumns_def allColumnsKeyParts_eq)

theorem duplicate_key_normalisation_witness:
  "differOnlyInCase [(''a'', Str ''Foo ''), (''b'', Null)] [(''a'', Str ''fOO ''), (''b'', Null)]
   \<and> findDuplicates_compositeKey defaultOptions [''a'', ''b''] [(''a'', Str ''Foo ''), (''b'', Null)]
       = ''a:foo''
   \<and> findDuplicates_compositeKey defaultOptions [''a'', ''b''] [(''a'', Str ''fOO ''), (''b'', Null)]
       = ''a:foo''
   \<and> createCompositeKeyFromAllColumns [(''a'', Str ''Foo ''), (''b'', Null)] = ''a:Foo|b:''"
proof -
  have d: "differOnlyInCase [(''a'', Str ''Foo ''), (''b'', Null)] [(''a'', Str ''fOO ''), (''b'', Null)]"
    by code_simp
  have k: "findDuplicates_compositeKey defaultOptions [''a'', ''b''] [(''a'', Str ''Foo ''), (''b'', Null)] = ''a:foo''"
    by code_simp
  have c: "createCompositeKeyFromAllColumns [(''a'', Str ''Foo ''), (''b'', Null)] = ''a:Foo|b:''"
    by code_simp
  from duplicate_key_normalisation [of "[''a'', ''b'']" "[(''a'', Str ''Foo ''), (''b'', Null)]"
      "[(''a'', Str ''Foo ''), (''b'', Null)]" "[(''a'', Str ''fOO ''), (''b'', Null)]"] d
  have e: "findDuplicates_compositeKey defaultOptions [''a'', ''b''] [(''a'', Str ''Foo ''), (''b'', Null)]
      = findDuplicates_compositeKey defaultOptions [''a'', ''b''] [(''a'', Str ''fOO ''), (''b'', Null)]"
    by blast
  from e k have k2: "findDuplicates_compositeKey defaultOptions [''a'', ''b''] [(''a'', Str ''fOO ''), (''b'', Null)] = ''a:foo''"
    by (rule trans [OF sym])
  from d k k2 c show ?thesis by (intro conjI)
qed

section \<open>Properties of the array matcher\<close>

lemma indexStep_step:
  assumes "n < length data2"
  shows "indexStep mappings n (data2 ! n) (indexMapUpTo mappings data2 n)
           = indexMapUpTo mappings data2 (Suc n)"
proof (rule ext)
  fix k
  let ?key = "createCompositeKey (data2 ! n) mappings False"
  show "indexStep mappings n (data2 ! n) (indexMapUpTo mappings data2 n) k
           = indexMapUpTo mappings data2 (Suc n) k"
  proof (cases "?key = []")
    case True
    then show ?thesis
      by (auto simp: indexStep_def indexMapUpTo_def key2_def Let_def)
  next
    case False
    then show ?thesis
      by (cases "k = ?key") (auto simp: indexStep_def indexMapUpTo_def key2_def Let_def split: option.splits)
  qed
qed

lemma indexMap_forChunk:
  "n \<le> length data2 \<Longrightarrow> drop n data2 = xs \<Longrightarrow>
   forChunk (indexStep mappings) n xs (indexMapUpTo mappings data2 n)
     = indexMapUpTo mappings data2 (length data2)"
proof (induction xs arbitrary: n)
  case Nil
  then have "n = length data2" by simp
  then show ?case by simp
next
  case (Cons x xs)
  from Cons.prems(2) have n: "n < length data2" and x: "data2 ! n = x" and rest: "drop (Suc n) data2 = xs"
    by (metis drop_eq_Nil2 list.distinct(1) not_le, metis nth_via_drop, metis drop_Suc tl_drop list.sel(3))
  from n have "Suc n \<le> length data2" by simp
  from Cons.IH [OF this rest] indexStep_step [OF n, of mappings] show ?case by (simp add: x)
qed

lemma cmp_invI:
  assumes "\<And>k. file2Map s k =
        (if k \<noteq> [] \<and> positions2 mappings data2 k \<noteq> []
         then Some (drop (arrivals1 mappings data1 p k) (positions2 mappings data2 k)) else None)"
    and "length (inFile2Only s) = length data2"
    and "\<And>k i. i \<in> set (drop (arrivals1 mappings data1 p k) (positions2 mappings data2 k)) \<Longrightarrow>
        inFile2Only s ! i = Some (data2 ! i)"
    and "matched s = fifoMatchedUpTo mappings data1 data2 p"
    and "inFile1Only s = fifoUnmatched1UpTo mappings data1 data2 p"
    and "mset (backReferences (matched s)) + mset (map Obj (filterBoolean (inFile2Only s)))
       = mset (map Obj data2)"
  shows "cmp_inv mappings data1 data2 p s"
  unfolding cmp_inv_def using assms by blast

lemma filterBoolean_map_Some: "filterBoolean (map Some xs) = xs"
  by (induction xs) auto

lemma positions2_props:
  "distinct (positions2 mappings data2 k)"
  "i \<in> set (positions2 mappings data2 k) \<longleftrightarrow> i < length data2 \<and> key2 mappings (data2 ! i) = k"
  by (auto simp: positions2_def)

lemma filter_nth_positions:
  "map (\<lambda>i. xs ! i) (filter (\<lambda>i. P (xs ! i)) [0..<length xs]) = filter P xs"
proof (induction xs rule: rev_induct)
  case Nil
  then show ?case by simp
next
  case (snoc x xs)
  have "map (\<lambda>i. (xs @ [x]) ! i) (filter (\<lambda>i. P ((xs @ [x]) ! i)) [0..<length xs])
        = map (\<lambda>i. xs ! i) (filter (\<lambda>i. P (xs ! i)) [0..<length xs])"
    by (intro map_cong filter_cong) (auto simp: nth_append)
  with snoc show ?case by (simp add: nth_append)
qed

lemma candidates_positions2:
  "map (\<lambda>i. data2 ! i) (positions2 mappings data2 k) = filter (\<lambda>y. key2 mappings y = k) data2"
  unfolding positions2_def by (rule filter_nth_positions)

lemma cmp_inv_init:
  "cmp_inv mappings data1 data2 0
     \<lparr>matched = [], inFile1Only = [], inFile2Only = map Some data2,
      file2Map = indexMapUpTo mappings data2 (length data2)\<rparr>"
  by (rule cmp_invI)
     (auto simp: indexMapUpTo_def positions2_def arrivals1_def fifoMatchedUpTo_def
        fifoUnmatched1UpTo_def backReferences_def filterBoolean_map_Some)

lemma mset_filterBoolean_null:
  "j < length xs \<Longrightarrow> xs ! j = Some y \<Longrightarrow>
   mset (filterBoolean xs) = add_mset y (mset (filterBoolean (xs[j := None])))"
proof (induction xs arbitrary: j)
  case Nil
  then show ?case by simp
next
  case (Cons x xs)
  then show ?case
    by (cases j; cases x) auto
qed

lemma nth_notin_drop_Suc:
  "distinct xs \<Longrightarrow> c < length xs \<Longrightarrow> xs ! c \<notin> set (drop (Suc c) xs)"
  by (metis Cons_nth_drop_Suc distinct.simps(2) distinct_drop)

lemma getProp_withMatchedWith: "getProp (withMatchedWith item1 v) ''_matchedWith'' = v"
  by (simp add: getProp_def withMatchedWith_def update_conv')

lemma arrivals1_Suc:
  "p < length data1 \<Longrightarrow>
   arrivals1 mappings data1 (Suc p) k
     = (if key1 mappings (data1 ! p) = k then Suc (arrivals1 mappings data1 p k)
        else arrivals1 mappings data1 p k)"
  by (simp add: arrivals1_def take_Suc_conv_app_nth)

lemma fifoPartner_eq:
  "fifoPartner mappings data1 data2 p =
     (let k = key1 mappings (data1 ! p); c = arrivals1 mappings data1 p k in
      if k \<noteq> [] \<and> c < length (positions2 mappings data2 k)
      then Some (data2 ! (positions2 mappings data2 k ! c)) else None)"
proof -
  let ?k = "key1 mappings (data1 ! p)"
  have len: "length (filter (\<lambda>y. key2 mappings y = ?k) data2) = length (positions2 mappings data2 ?k)"
    by (metis candidates_positions2 length_map)
  have "filter (\<lambda>y. key2 mappings y = ?k) data2 ! c = data2 ! (positions2 mappings data2 ?k ! c)"
    if "c < length (positions2 mappings data2 ?k)" for c
    using that by (metis candidates_positions2 nth_map)
  then show ?thesis
    by (simp add: fifoPartner_def Let_def arrivals1_def len)
qed

lemma matchStep_match:
  assumes "createCompositeKey item1 mappings True \<noteq> []"
    and "file2Map s (createCompositeKey item1 mappings True) = Some (j # rest)"
  shows "matchStep mappings idx item1 s =
     s\<lparr>matched := matched s @ [withMatchedWith item1 (arrayGet (inFile2Only s) j)],
       inFile2Only := arraySetNull (inFile2Only s) j,
       file2Map := (file2Map s)(createCompositeKey item1 mappings True \<mapsto> rest)\<rparr>"
  using assms by (simp add: matchStep_def Let_def)

lemma matchStep_nomatch:
  assumes "createCompositeKey item1 mappings True = []
           \<or> file2Map s (createCompositeKey item1 mappings True) = None
           \<or> file2Map s (createCompositeKey item1 mappings True) = Some []"
  shows "matchStep mappings idx item1 s = s\<lparr>inFile1Only := inFile1Only s @ [item1]\<rparr>"
  using assms by (auto simp: matchStep_def Let_def)

lemma cmp_inv_step:
  assumes inv: "cmp_inv mappings data1 data2 p s" and p: "p < length data1"
  shows "cmp_inv mappings data1 data2 (Suc p) (matchStep mappings p (data1 ! p) s)"
proof -
  let ?x = "data1 ! p"
  let ?k = "key1 mappings ?x"
  let ?pos = "positions2 mappings data2"
  let ?arr = "arrivals1 mappings data1"
  let ?c = "?arr p ?k"
  have kdef: "createCompositeKey ?x mappings True = ?k"
    by (simp add: key1_def)
  have fm: "\<And>k. file2Map s k =
        (if k \<noteq> [] \<and> ?pos k \<noteq> [] then Some (drop (?arr p k) (?pos k)) else None)"
    and len: "length (inFile2Only s) = length data2"
    and live: "\<And>k i. i \<in> set (drop (?arr p k) (?pos k)) \<Longrightarrow> inFile2Only s ! i = Some (data2 ! i)"
    and m: "matched s = fifoMatchedUpTo mappings data1 data2 p"
    and u: "inFile1Only s = fifoUnmatched1UpTo mappings data1 data2 p"
    and ms: "mset (backReferences (matched s)) + mset (map Obj (filterBoolean (inFile2Only s)))
       = mset (map Obj data2)"
    using inv unfolding cmp_inv_def by blast+
  show ?thesis
  proof (cases "?k \<noteq> [] \<and> ?c < length (?pos ?k)")
    case True
    then have nonempty: "?k \<noteq> []" and c: "?c < length (?pos ?k)" by simp_all
    let ?j = "?pos ?k ! ?c"
    have dropc: "drop ?c (?pos ?k) = ?j # drop (Suc ?c) (?pos ?k)"
      using c by (simp add: Cons_nth_drop_Suc)
    have jin: "?j \<in> set (?pos ?k)" using c by simp
    then have jlt: "?j < length data2" and jkey: "key2 mappings (data2 ! ?j) = ?k"
      by (simp_all add: positions2_props)
    have jlive: "inFile2Only s ! ?j = Some (data2 ! ?j)"
      by (rule live [of ?j ?k]) (simp add: dropc)
    have get: "arrayGet (inFile2Only s) ?j = Obj (data2 ! ?j)"
      using jlt len jlive by (simp add: arrayGet_def)
    have set: "arraySetNull (inFile2Only s) ?j = (inFile2Only s)[?j := None]"
      using jlt len by (simp add: arraySetNull_def)
    have step: "matchStep mappings p ?x s =
       s\<lparr>matched := matched s @ [withMatchedWith ?x (Obj (data2 ! ?j))],
         inFile2Only := (inFile2Only s)[?j := None],
         file2Map := (file2Map s)(?k \<mapsto> drop (Suc ?c) (?pos ?k))\<rparr>"
    proof -
      have "?pos ?k \<noteq> []" using c by auto
      then have "file2Map s ?k = Some (?j # drop (Suc ?c) (?pos ?k))"
        using fm [of ?k] nonempty dropc by simp
      then show ?thesis
        using matchStep_match [of ?x mappings s ?j "drop (Suc ?c) (?pos ?k)" p] nonempty
        by (simp add: kdef get set)
    qed
    have partner: "fifoPartner mappings data1 data2 p = Some (data2 ! ?j)"
      using True by (simp add: fifoPartner_eq Let_def)
    show ?thesis
      unfolding step
    proof (rule cmp_invI)
      fix k
      show "file2Map (s\<lparr>matched := matched s @ [withMatchedWith ?x (Obj (data2 ! ?j))],
         inFile2Only := (inFile2Only s)[?j := None],
         file2Map := (file2Map s)(?k \<mapsto> drop (Suc ?c) (?pos ?k))\<rparr>) k =
        (if k \<noteq> [] \<and> ?pos k \<noteq> [] then Some (drop (?arr (Suc p) k) (?pos k)) else None)"
        using fm [of k] c nonempty p by (cases "k = ?k") (auto simp: arrivals1_Suc)
    next
      fix k i
      assume i: "i \<in> set (drop (?arr (Suc p) k) (?pos k))"
      have "i \<noteq> ?j \<and> i \<in> set (drop (?arr p k) (?pos k))"
      proof (cases "k = ?k")
        case True
        with i p have i': "i \<in> set (drop (Suc ?c) (?pos ?k))"
          by (simp add: arrivals1_Suc)
        then have "i \<noteq> ?j"
          using nth_notin_drop_Suc [OF positions2_props(1) c] by blast
        moreover have "i \<in> set (drop ?c (?pos ?k))"
          using i' by (simp add: dropc)
        ultimately show ?thesis using True by simp
      next
        case False
        with i p have i': "i \<in> set (drop (?arr p k) (?pos k))"
          by (simp add: arrivals1_Suc)
        then have "i \<in> set (?pos k)" by (rule in_set_dropD)
        then have "key2 mappings (data2 ! i) = k" by (simp add: positions2_props)
        with jkey False have "i \<noteq> ?j" by auto
        with i' show ?thesis by simp
      qed
      then show "inFile2Only (s\<lparr>matched := matched s @ [withMatchedWith ?x (Obj (data2 ! ?j))],
         inFile2Only := (inFile2Only s)[?j := None],
         file2Map := (file2Map s)(?k \<mapsto> drop (Suc ?c) (?pos ?k))\<rparr>) ! i = Some (data2 ! i)"
        using live [of i k] by simp
    next
      show "mset (backReferences (matched (s\<lparr>matched := matched s @ [withMatchedWith ?x (Obj (data2 ! ?j))],
         inFile2Only := (inFile2Only s)[?j := None],
         file2Map := (file2Map s)(?k \<mapsto> drop (Suc ?c) (?pos ?k))\<rparr>)))
        + mset (map Obj (filterBoolean (inFile2Only (s\<lparr>matched := matched s @ [withMatchedWith ?x (Obj (data2 ! ?j))],
         inFile2Only := (inFile2Only s)[?j := None],
         file2Map := (file2Map s)(?k \<mapsto> drop (Suc ?c) (?pos ?k))\<rparr>))))
        = mset (map Obj data2)"
        using ms mset_filterBoolean_null [of ?j "inFile2Only s" "data2 ! ?j"] jlt len jlive
        by (simp add: backReferences_def getProp_withMatchedWith)
    qed (use len m u partner in \<open>simp_all add: fifoMatchedUpTo_def fifoUnmatched1UpTo_def\<close>)
  next
    case False
    have nomatch: "createCompositeKey ?x mappings True = []
           \<or> file2Map s (createCompositeKey ?x mappings True) = None
           \<or> file2Map s (createCompositeKey ?x mappings True) = Some []"
      using False fm [of ?k] by (auto simp: kdef)
    have step: "matchStep mappings p ?x s = s\<lparr>inFile1Only := inFile1Only s @ [?x]\<rparr>"
      by (rule matchStep_nomatch [OF nomatch])
    have partner: "fifoPartner mappings data1 data2 p = None"
      using False by (auto simp: fifoPartner_eq Let_def)
    show ?thesis
      unfolding step
    proof (rule cmp_invI)
      fix k
      show "file2Map (s\<lparr>inFile1Only := inFile1Only s @ [?x]\<rparr>) k =
        (if k \<noteq> [] \<and> ?pos k \<noteq> [] then Some (drop (?arr (Suc p) k) (?pos k)) else None)"
        using fm [of k] False p by (cases "k = ?k") (auto simp: arrivals1_Suc)
    next
      fix k i
      assume i: "i \<in> set (drop (?arr (Suc p) k) (?pos k))"
      have "i \<in> set (drop (?arr p k) (?pos k))"
        using i p set_drop_subset_set_drop [of "?arr p k" "Suc (?arr p k)" "?pos k"]
        by (cases "k = ?k") (auto simp: arrivals1_Suc)
      then show "inFile2Only (s\<lparr>inFile1Only := inFile1Only s @ [?x]\<rparr>) ! i = Some (data2 ! i)"
        using live [of i k] by simp
    qed (use len m u ms partner in \<open>simp_all add: fifoMatchedUpTo_def fifoUnmatched1UpTo_def\<close>)
  qed
qed

lemma cmp_inv_forChunk:
  "cmp_inv mappings data1 data2 p s \<Longrightarrow> p \<le> length data1 \<Longrightarrow> drop p data1 = xs \<Longrightarrow>
   cmp_inv mappings data1 data2 (length data1) (forChunk (matchStep mappings) p xs s)"
proof (induction xs arbitrary: p s)
  case Nil
  then have "p = length data1" by simp
  with Nil.prems(1) show ?case by simp
next
  case (Cons x xs)
  from Cons.prems(3) have p: "p < length data1" and x: "data1 ! p = x" and rest: "drop (Suc p) data1 = xs"
    by (metis drop_eq_Nil2 list.distinct(1) not_le, metis nth_via_drop, metis drop_Suc tl_drop list.sel(3))
  from cmp_inv_step [OF Cons.prems(1) p]
  have inv': "cmp_inv mappings data1 data2 (Suc p) (matchStep mappings p x s)"
    by (simp add: x)
  from p have le: "Suc p \<le> length data1" by simp
  from Cons.IH [OF inv' le rest] show ?case by simp
qed

lemma indexMapUpTo_0: "indexMapUpTo mappings data2 0 = Map.empty"
  by (rule ext) (simp add: indexMapUpTo_def)

lemma compareLoopState_inv:
  "cmp_inv mappings data1 data2 (length data1) (compareLoopState data1 data2 mappings)"
proof -
  have a: "forChunk (indexStep mappings) 0 data2 (indexMapUpTo mappings data2 0)
             = indexMapUpTo mappings data2 (length data2)"
    by (rule indexMap_forChunk) simp_all
  have b: "forChunk (indexStep mappings) 0 data2 Map.empty = indexMapUpTo mappings data2 (length data2)"
    using a by (simp only: indexMapUpTo_0)
  have st: "compareLoopState data1 data2 mappings =
      forChunk (matchStep mappings) 0 data1
        \<lparr>matched = [], inFile1Only = [], inFile2Only = map Some data2,
         file2Map = indexMapUpTo mappings data2 (length data2)\<rparr>"
    unfolding compareLoopState_def forChunks_flat drop_0 b ..
  have "0 \<le> length data1" "drop 0 data1 = data1" by simp_all
  from cmp_inv_forChunk [OF cmp_inv_init this] show ?thesis
    unfolding st .
qed

lemma compareFilesWithMappings_eq:
  "compareFilesWithMappings data1 data2 mappings =
     \<lparr>res_matched = matched (compareLoopState data1 data2 mappings),
      res_inFile1Only = inFile1Only (compareLoopState data1 data2 mappings),
      res_inFile2Only = filterBoolean (inFile2Only (compareLoopState data1 data2 mappings))\<rparr>"
  by (simp add: compareFilesWithMappings_def compareLoopState_def Let_def)

lemma length_fifo_split:
  "length (fifoMatchedUpTo mappings data1 data2 n)
     + length (fifoUnmatched1UpTo mappings data1 data2 n) = n"
  by (induction n) (auto simp: fifoMatchedUpTo_def fifoUnmatched1UpTo_def split: option.splits)

text \<open>
  Claim C1 (partition completeness).  For all datasets \<open>data1\<close>, \<open>data2\<close> and every mapping
  list (the non-empty ones in particular), the matched pairs and the file-1-only records
  account for every record of \<open>data1\<close>, and the matched pairs and the file-2-only records
  for every record of \<open>data2\<close>.
\<close>

theorem partition_completeness:
  "length (res_matched (compareFilesWithMappings data1 data2 mappings))
     + length (res_inFile1Only (compareFilesWithMappings data1 data2 mappings)) = length data1
   \<and> length (res_matched (compareFilesWithMappings data1 data2 mappings))
     + length (res_inFile2Only (compareFilesWithMappings data1 data2 mappings)) = length data2"
proof -
  let ?s = "compareLoopState data1 data2 mappings"
  have inv: "cmp_inv mappings data1 data2 (length data1) ?s"
    by (rule compareLoopState_inv)
  then have m: "matched ?s = fifoMatchedUpTo mappings data1 data2 (length data1)"
    and u: "inFile1Only ?s = fifoUnmatched1UpTo mappings data1 data2 (length data1)"
    and ms: "mset (backReferences (matched ?s)) + mset (map Obj (filterBoolean (inFile2Only ?s)))
       = mset (map Obj data2)"
    unfolding cmp_inv_def by blast+
  have one: "length (matched ?s) + length (inFile1Only ?s) = length data1"
    unfolding m u by (rule length_fifo_split)
  have "size (mset (backReferences (matched ?s)) + mset (map Obj (filterBoolean (inFile2Only ?s))))
          = size (mset (map Obj data2))"
    by (simp only: ms)
  then have two: "length (matched ?s) + length (filterBoolean (inFile2Only ?s)) = length data2"
    by (simp add: backReferences_def)
  from one two show ?thesis
    unfolding compareFilesWithMappings_eq by simp
qed


subsection \<open>Records whose mapped columns are all empty\<close>

lemma createCompositeKey_of_two_nonempty:
  "2 \<le> length mappings \<Longrightarrow> createCompositeKey item mappings isFile1 \<noteq> []"
proof -
  assume "2 \<le> length mappings"
  then obtain m1 m2 ms where "mappings = m1 # m2 # ms"
    by (cases mappings; cases "tl mappings") auto
  then show ?thesis
    by (simp add: createCompositeKey_def)
qed

text \<open>
  Claim C2 at a list of two mappings.  A dataset-1 record and a dataset-2 record whose
  mapped columns are all empty (empty string, blank, or \<open>null\<close>) both get the match key
  \<open>|\<close>, which is not the empty string, so the guard \<open>if (key)\<close> lets them through and
  they are paired with each other, also when they come through \<open>processFiles\<close>.  With
  the single mapping on \<open>ref\<close> the key of the same records is empty and both stay
  unmatched.  (By the lemma above no record has the empty key under two or more
  mappings.)
\<close>

theorem empty_columns_pair_under_two_mappings:
  "createCompositeKey emptyColumnsRow1 refMemoMappings True = ''|''
   \<and> createCompositeKey emptyColumnsRow2 refMemoMappings False = ''|''
   \<and> compareFilesWithMappings [emptyColumnsRow1] [emptyColumnsRow2] refMemoMappings
     = \<lparr>res_matched = [emptyColumnsRow1 @ [(''_matchedWith'', Obj emptyColumnsRow2)]],
        res_inFile1Only = [], res_inFile2Only = []\<rparr>
   \<and> map_sum id rr_matched
        (snd (processFiles ''Sheet1'' ''Sheet1'' [emptyColumnsRow1] [emptyColumnsRow2]
                refMemoMappings))
     = Inr [emptyColumnsRow1 @ [(''_matchedWith'', Obj emptyColumnsRow2)]]
   \<and> compareFilesWithMappings [emptyColumnsRow1] [emptyColumnsRow2] [hd refMemoMappings]
     = \<lparr>res_matched = [], res_inFile1Only = [emptyColumnsRow1],
        res_inFile2Only = [emptyColumnsRow2]\<rparr>"
  by code_simp


section \<open>Properties of the exporter\<close>

lemma validItems_replicate: "validItems (replicate n (Some item)) = replicate n item"
  by (induction n) auto

lemma length_validItems_le: "length (validItems xs) \<le> length xs"
  by (induction xs rule: validItems.induct) auto

text \<open>
  Claim C8 (truncation).  When a category holds more valid rows than the ceiling of
  50,000, \<open>processSheetData\<close> appends exactly one sheet under the category's name: its
  first row is the note that records the ceiling and the original number of rows, and
  after the advice row, the blank row and the header row it holds exactly 50,000 data
  rows, the first 50,000 valid rows of the category (flattened when they are matched
  entries).
\<close>

theorem truncated_sheet:
  assumes "MAX_SAFE_ROWS < length (validItems data)"
  shows "\<exists>rows header.
     processSheetData toLocaleString jsonLength workbook sheetName data
       = workbook @ [(sheetName,
           [TextRow [truncationNote toLocaleString (length (validItems data))],
            TextRow [truncationAdvice], TextRow [[]], HeaderRow header] @ map DataRow rows)]
     \<and> length rows = 50000
     \<and> rows = (if hasProp ''_matchedWith'' (hd (validItems data))
                then map processMatchedItem (take 50000 (validItems data))
                else take 50000 (validItems data))"
proof -
  let ?valid = "validItems data"
  from assms have ne: "?valid \<noteq> []" "data \<noteq> []"
    by (auto simp: MAX_SAFE_ROWS_def)
  from assms have len: "length (take 50000 ?valid) = 50000"
    by (simp add: MAX_SAFE_ROWS_def)
  show ?thesis
  proof (cases "hasProp ''_matchedWith'' (hd ?valid)")
    case True
    with assms ne len show ?thesis
      by (simp add: processSheetData_def Let_def book_append_sheet_def aoa_to_sheet_def
          sheet_add_json_def writeRows_def MAX_SAFE_ROWS_def)
  next
    case False
    with assms ne len show ?thesis
      by (simp add: processSheetData_def Let_def book_append_sheet_def aoa_to_sheet_def
          sheet_add_json_def writeRows_def MAX_SAFE_ROWS_def)
  qed
qed

theorem truncated_sheet_witness:
  "MAX_SAFE_ROWS < length (validItems sixtyThousandRows)
   \<and> truncationNote plainDecimal 60000
       = ''Note: This sheet has been limited to 50000 rows out of 60000 total rows to prevent browser crashes.''
   \<and> (\<exists>rows header.
     processSheetData plainDecimal rowSize [] ''Matched'' sixtyThousandRows
       = [(''Matched'',
           [TextRow [truncationNote plainDecimal 60000],
            TextRow [truncationAdvice], TextRow [[]], HeaderRow header] @ map DataRow rows)]
     \<and> length rows = 50000)"
proof -
  have v: "validItems sixtyThousandRows = replicate 60000 [(''id'', Str ''1'')]"
    by (simp add: sixtyThousandRows_def validItems_replicate)
  have h: "MAX_SAFE_ROWS < length (validItems sixtyThousandRows)"
    by (simp add: v MAX_SAFE_ROWS_def)
  have n: "truncationNote plainDecimal 60000
       = ''Note: This sheet has been limited to 50000 rows out of 60000 total rows to prevent browser crashes.''"
    by (simp add: truncationNote_def MAX_SAFE_ROWS_def digitChar_def)
  from truncated_sheet [OF h, of plainDecimal rowSize "[]" "''Matched''"]
  have e: "\<exists>rows header.
     processSheetData plainDecimal rowSize [] ''Matched'' sixtyThousandRows
       = [(''Matched'',
           [TextRow [truncationNote plainDecimal 60000],
            TextRow [truncationAdvice], TextRow [[]], HeaderRow header] @ map DataRow rows)]
     \<and> length rows = 50000"
    unfolding v by (simp only: length_replicate append_Nil) blast
  from h n e show ?thesis by (intro conjI)
qed

lemma mergeFile2_shared_key:
  "hasProp k mainItem \<Longrightarrow> mergeFile2 ((k, v) # entries) mainItem = mergeFile2 entries mainItem"
  by simp

lemma mergeFile2_new_key:
  "\<not> hasProp k mainItem \<Longrightarrow>
   mergeFile2 ((k, v) # entries) mainItem
     = mergeFile2 entries (AList.update (''File2_'' @ k) v mainItem)"
  by simp

text \<open>
  Claim C9 at two matched entries.  The guard of \<open>processMatchedItem\<close> tests the original
  key, not the prefixed name.  For an entry whose two sides share the columns \<open>id\<close> and
  \<open>amt\<close>, no column \<open>File2_amt\<close> exists, yet both fields of the back-reference are
  dropped.  For an entry that already has a column \<open>File2_x\<close>, the field \<open>x\<close> of the
  back-reference overwrites it.  (The two lemmas above give the rule for any entry: a
  field is dropped when its own key is a column of the row, and is written under the
  prefixed name otherwise, over whatever that name held.)
\<close>

theorem processMatchedItem_drops_unprefixed_collisions:
  "\<not> hasProp ''File2_amt'' sharedColumnsEntry
   \<and> processMatchedItem sharedColumnsEntry = [(''id'', Str ''1''), (''amt'', Str ''10'')]
   \<and> hasProp ''File2_x'' prefixedColumnEntry
   \<and> processMatchedItem prefixedColumnEntry = [(''File2_x'', Str ''new'')]"
  by code_simp

section \<open>Properties of the orchestration\<close>







section \<open>The matcher leaves its inputs alone\<close>

lemma forChunk_preserves:
  assumes "\<And>k x s. P s \<Longrightarrow> P (body k x s)"
  shows "P s \<Longrightarrow> P (forChunk body k xs s)"
  by (induction xs arbitrary: k s) (auto intro: assms)

lemma forChunks_preserves:
  assumes "\<And>k x s. P s \<Longrightarrow> P (body k x s)" and "P s"
  shows "P (forChunks body data i s)"
  unfolding forChunks_flat using assms by (rule forChunk_preserves)

lemma prefix_list_update:
  assumes "prefix xs ys" and "length xs \<le> a"
  shows "prefix xs (ys[a := v])"
proof -
  from assms(1) obtain zs where "ys = xs @ zs" by (auto simp: prefix_def)
  with assms(2) show ?thesis by (simp add: list_update_append)
qed

lemma preserves_refl: "preserves st st"
  by (simp add: preserves_def)

lemma preserves_allocArray: "preserves st st' \<Longrightarrow> preserves st (fst (allocArray st' xs))"
  by (auto simp: preserves_def allocArray_def intro: prefix_order.trans)

lemma preserves_allocObject: "preserves st st' \<Longrightarrow> preserves st (fst (allocObject st' obj))"
  by (auto simp: preserves_def allocObject_def intro: prefix_order.trans)

lemma preserves_pushAt:
  "preserves st st' \<Longrightarrow> length (arrays st) \<le> a \<Longrightarrow> preserves st (pushAt st' a v)"
  by (simp add: preserves_def pushAt_def prefix_list_update)

lemma preserves_setNullAt:
  "preserves st st' \<Longrightarrow> length (arrays st) \<le> a \<Longrightarrow> preserves st (setNullAt st' a i)"
  by (simp add: preserves_def setNullAt_def prefix_list_update)

lemma frame_inv_hIndexStep: "frame_inv st s \<Longrightarrow> frame_inv st (hIndexStep mappings idx item s)"
  by (auto simp: frame_inv_def hIndexStep_def Let_def split: option.splits)

lemma frame_inv_nomatch:
  assumes "frame_inv st s"
  shows "frame_inv st (s\<lparr>store := pushAt (store s) (inFile1OnlyAt s) item1\<rparr>)"
proof -
  from assms have p: "preserves st (store s)" and m: "length (arrays st) \<le> matchedAt s"
    and o: "matchedAt s < inFile1OnlyAt s" "inFile1OnlyAt s < inFile2OnlyAt s"
      "inFile2OnlyAt s < length (arrays (store s))"
    and f: "list_all (freshRef st) (arrays (store s) ! matchedAt s)"
    by (simp_all add: frame_inv_def)
  from p m o have "preserves st (pushAt (store s) (inFile1OnlyAt s) item1)"
    by (intro preserves_pushAt) simp_all
  with m o f show ?thesis
    by (simp add: frame_inv_def pushAt_def)
qed

lemma frame_inv_match:
  assumes "frame_inv st s"
  shows "frame_inv st
     (s\<lparr>store := setNullAt (pushAt (fst (allocObject (store s) obj)) (matchedAt s)
                    (HRef (snd (allocObject (store s) obj)))) (inFile2OnlyAt s) i,
        hFile2Map := m'\<rparr>)"
proof -
  from assms have p: "preserves st (store s)" and m: "length (arrays st) \<le> matchedAt s"
    and o: "matchedAt s < inFile1OnlyAt s" "inFile1OnlyAt s < inFile2OnlyAt s"
      "inFile2OnlyAt s < length (arrays (store s))"
    and f: "list_all (freshRef st) (arrays (store s) ! matchedAt s)"
    by (simp_all add: frame_inv_def)
  let ?a = "allocObject (store s) obj"
  let ?st1 = "pushAt (fst ?a) (matchedAt s) (HRef (snd ?a))"
  let ?st2 = "setNullAt ?st1 (inFile2OnlyAt s) i"
  have "preserves st (fst ?a)" using p by (rule preserves_allocObject)
  then have "preserves st ?st1" using m by (rule preserves_pushAt)
  then have p2: "preserves st ?st2" using m o by (intro preserves_setNullAt) simp_all
  from p have "length (objects st) \<le> length (objects (store s))"
    by (auto simp: preserves_def dest: prefix_length_le)
  then have fresh: "freshRef st (HRef (snd ?a))"
    by (simp add: allocObject_def)
  have len: "length (arrays ?st2) = length (arrays (store s))"
    by (simp add: setNullAt_def pushAt_def allocObject_def)
  have arr: "arrays ?st2 ! matchedAt s = arrays (store s) ! matchedAt s @ [HRef (snd ?a)]"
    using o by (simp add: setNullAt_def pushAt_def allocObject_def)
  from p2 m o f fresh len arr show ?thesis
    by (simp add: frame_inv_def)
qed

lemma frame_inv_hMatchStep: "frame_inv st s \<Longrightarrow> frame_inv st (hMatchStep mappings idx item1 s)"
  unfolding hMatchStep_def Let_def
  by (auto simp: frame_inv_nomatch frame_inv_match split: option.splits list.splits)
     (simp_all add: frame_inv_def)


lemma frame_inv_init:
  assumes "data2At < length (arrays st)"
  shows "frame_inv st
     \<lparr>store = fst (allocArray (fst (allocArray (fst (allocArray st [])) [])) (arrays st ! data2At)),
      thrown = False, hFile2Map = Map.empty,
      matchedAt = snd (allocArray st []),
      inFile1OnlyAt = snd (allocArray (fst (allocArray st [])) []),
      inFile2OnlyAt = snd (allocArray (fst (allocArray (fst (allocArray st [])) [])) (arrays st ! data2At))\<rparr>"
  by (simp add: frame_inv_def allocArray_def preserves_def nth_append)

text \<open>
  Claim C10 (frame).  Whatever the store, the addresses and the mappings, and whether
  the call returns or throws, every array and every object that existed before the call
  of \<open>compareFilesWithMappings\<close> is unchanged after it: the input arrays and the records
  they hold in particular.  When the call returns, the three result arrays are new, and
  every entry of \<open>matched\<close> refers to an object created by the call.
\<close>

theorem inputs_not_mutated:
  "preserves st (fst (hCompareFilesWithMappings st data1At data2At mappings))
   \<and> (case snd (hCompareFilesWithMappings st data1At data2At mappings) of
        Inl e \<Rightarrow> True
      | Inr (matchedA, inFile1OnlyA, inFile2OnlyA) \<Rightarrow>
          length (arrays st) \<le> matchedA \<and> length (arrays st) \<le> inFile1OnlyA
          \<and> length (arrays st) \<le> inFile2OnlyA
          \<and> list_all (freshRef st)
               (arrays (fst (hCompareFilesWithMappings st data1At data2At mappings)) ! matchedA))"
proof (cases "data1At < length (arrays st) \<and> data2At < length (arrays st)")
  case False
  then show ?thesis
    by (simp add: hCompareFilesWithMappings_def preserves_refl)
next
  case True
  define s0 where "s0 =
     \<lparr>store = fst (allocArray (fst (allocArray (fst (allocArray st [])) [])) (arrays st ! data2At)),
      thrown = False, hFile2Map = Map.empty,
      matchedAt = snd (allocArray st []),
      inFile1OnlyAt = snd (allocArray (fst (allocArray st [])) []),
      inFile2OnlyAt = snd (allocArray (fst (allocArray (fst (allocArray st [])) [])) (arrays st ! data2At))\<rparr>"
  define s1 where "s1 = forChunks (hIndexStep mappings) (arrays st ! data2At) 0 s0"
  define s2 where "s2 = forChunks (hMatchStep mappings) (arrays st ! data1At) 0 s1"
  define f where "f = allocArray (store s2) (filter hTruthy (arrays (store s2) ! inFile2OnlyAt s2))"
  from True have i0: "frame_inv st s0"
    unfolding s0_def by (intro frame_inv_init) simp
  have i1: "frame_inv st s1"
    unfolding s1_def
    by (rule forChunks_preserves [where P = "frame_inv st"]) (auto intro: frame_inv_hIndexStep i0)
  have inv: "frame_inv st s2"
    unfolding s2_def
    by (rule forChunks_preserves [where P = "frame_inv st"]) (auto intro: frame_inv_hMatchStep i1)
  then have p: "preserves st (store s2)" and m: "length (arrays st) \<le> matchedAt s2"
    and o: "matchedAt s2 < inFile1OnlyAt s2" "inFile1OnlyAt s2 < inFile2OnlyAt s2"
      "inFile2OnlyAt s2 < length (arrays (store s2))"
    and fr: "list_all (freshRef st) (arrays (store s2) ! matchedAt s2)"
    by (simp_all add: frame_inv_def)
  have res: "hCompareFilesWithMappings st data1At data2At mappings =
      (if thrown s2 then (store s2, Inl TypeError)
       else (fst f, Inr (matchedAt s2, inFile1OnlyAt s2, snd f)))"
    using True unfolding hCompareFilesWithMappings_def Let_def f_def s2_def s1_def s0_def
    by (simp only: if_False not_True_eq_False simp_thms)
  show ?thesis
  proof (cases "thrown s2")
    case True
    then have "hCompareFilesWithMappings st data1At data2At mappings = (store s2, Inl TypeError)"
      by (simp only: res if_True)
    with p show ?thesis by simp
  next
    case False
    then have r: "hCompareFilesWithMappings st data1At data2At mappings
        = (fst f, Inr (matchedAt s2, inFile1OnlyAt s2, snd f))"
      by (simp only: res if_False)
    have pf: "preserves st (fst f)" unfolding f_def using p by (rule preserves_allocArray)
    have sf: "length (arrays st) \<le> snd f"
      using m o by (simp add: f_def allocArray_def)
    have af: "arrays (fst f) ! matchedAt s2 = arrays (store s2) ! matchedAt s2"
      using o by (simp add: f_def allocArray_def nth_append)
    from pf sf af m o fr show ?thesis unfolding r by simp
  qed
qed

theorem inputs_not_mutated_witness:
  "hCompareFilesWithMappings exampleStore 0 1 [idMapping]
     = (\<lparr>objects = [[(''id'', HStr ''1'')], [(''id'', HStr ''2'')],
                    [(''id'', HStr ''1'')], [(''id'', HStr ''3'')],
                    [(''id'', HStr ''1''), (''_matchedWith'', HRef 2)]],
         arrays = [[HRef 0, HRef 1], [HRef 2, HRef 3],
                   [HRef 4], [HRef 1], [HNull, HRef 3], [HRef 3]]\<rparr>,
        Inr (2, 3, 5))
   \<and> preserves exampleStore (fst (hCompareFilesWithMappings exampleStore 0 1 [idMapping]))
   \<and> list_all (freshRef exampleStore)
        (arrays (fst (hCompareFilesWithMappings exampleStore 0 1 [idMapping])) ! 2)"
proof -
  have e: "hCompareFilesWithMappings exampleStore 0 1 [idMapping]
     = (\<lparr>objects = [[(''id'', HStr ''1'')], [(''id'', HStr ''2'')],
                    [(''id'', HStr ''1'')], [(''id'', HStr ''3'')],
                    [(''id'', HStr ''1''), (''_matchedWith'', HRef 2)]],
         arrays = [[HRef 0, HRef 1], [HRef 2, HRef 3],
                   [HRef 4], [HRef 1], [HNull, HRef 3], [HRef 3]]\<rparr>,
        Inr (2, 3, 5))"
    by code_simp
  from inputs_not_mutated [of exampleStore 0 1 "[idMapping]"] show ?thesis
    unfolding e by simp
qed

section \<open>The streamed matcher and the tie-break\<close>

lemma forEachChunk_fold: "forEachChunk body chunks s = fold body (concat chunks) s"
  by (induction chunks arbitrary: s) auto

lemma streamIndexItem_step:
  assumes n: "n < length data2"
    and s: "allFile2UniqueItems s = map Some (take n data2)" "file2CurrentIndex s = n"
      "streamFile2Map s = wrapIndices data2 (indexMapUpTo mappings data2 n)"
  shows "allFile2UniqueItems (streamIndexItem mappings (data2 ! n) s) = map Some (take (Suc n) data2)
     \<and> file2CurrentIndex (streamIndexItem mappings (data2 ! n) s) = Suc n
     \<and> streamFile2Map (streamIndexItem mappings (data2 ! n) s)
         = wrapIndices data2 (indexMapUpTo mappings data2 (Suc n))
     \<and> streamMatched (streamIndexItem mappings (data2 ! n) s) = streamMatched s
     \<and> streamInFile1Only (streamIndexItem mappings (data2 ! n) s) = streamInFile1Only s"
proof -
  let ?key = "createCompositeKey (data2 ! n) mappings False"
  have m: "streamFile2Map (streamIndexItem mappings (data2 ! n) s)
         = wrapIndices data2 (indexMapUpTo mappings data2 (Suc n))"
  proof (rule ext)
    fix k
    show "streamFile2Map (streamIndexItem mappings (data2 ! n) s) k
         = wrapIndices data2 (indexMapUpTo mappings data2 (Suc n)) k"
    proof (cases "?key = []")
      case True
      then show ?thesis
        using s by (auto simp: streamIndexItem_def wrapIndices_def indexMapUpTo_def key2_def Let_def)
    next
      case False
      then show ?thesis
        using s by (cases "k = ?key")
          (auto simp: streamIndexItem_def wrapIndices_def indexMapUpTo_def key2_def Let_def
             split: option.splits)
    qed
  qed
  have rest: "allFile2UniqueItems (streamIndexItem mappings (data2 ! n) s) = map Some (take (Suc n) data2)
     \<and> file2CurrentIndex (streamIndexItem mappings (data2 ! n) s) = Suc n
     \<and> streamMatched (streamIndexItem mappings (data2 ! n) s) = streamMatched s
     \<and> streamInFile1Only (streamIndexItem mappings (data2 ! n) s) = streamInFile1Only s"
    using s n by (auto simp: streamIndexItem_def Let_def take_Suc_conv_app_nth split: option.splits)
  from m rest show ?thesis by blast
qed

lemma streamIndex_fold:
  "n \<le> length data2 \<Longrightarrow> drop n data2 = xs \<Longrightarrow>
   allFile2UniqueItems s = map Some (take n data2) \<Longrightarrow> file2CurrentIndex s = n \<Longrightarrow>
   streamFile2Map s = wrapIndices data2 (indexMapUpTo mappings data2 n) \<Longrightarrow>
   allFile2UniqueItems (fold (streamIndexItem mappings) xs s) = map Some data2
   \<and> streamFile2Map (fold (streamIndexItem mappings) xs s)
       = wrapIndices data2 (indexMapUpTo mappings data2 (length data2))
   \<and> streamMatched (fold (streamIndexItem mappings) xs s) = streamMatched s
   \<and> streamInFile1Only (fold (streamIndexItem mappings) xs s) = streamInFile1Only s"
proof (induction xs arbitrary: n s)
  case Nil
  then have "n = length data2" by simp
  with Nil show ?case by simp
next
  case (Cons x xs)
  from Cons.prems(2) have n: "n < length data2" and x: "data2 ! n = x" and rest: "drop (Suc n) data2 = xs"
    by (metis drop_eq_Nil2 list.distinct(1) not_le, metis nth_via_drop, metis drop_Suc tl_drop list.sel(3))
  from n have le: "Suc n \<le> length data2" by simp
  note st = streamIndexItem_step [OF n Cons.prems(3) Cons.prems(4) Cons.prems(5)]
  from st have a: "allFile2UniqueItems (streamIndexItem mappings x s) = map Some (take (Suc n) data2)"
    and b: "file2CurrentIndex (streamIndexItem mappings x s) = Suc n"
    and c: "streamFile2Map (streamIndexItem mappings x s)
         = wrapIndices data2 (indexMapUpTo mappings data2 (Suc n))"
    and d: "streamMatched (streamIndexItem mappings x s) = streamMatched s"
      "streamInFile1Only (streamIndexItem mappings x s) = streamInFile1Only s"
    unfolding x by blast+
  from Cons.IH [OF le rest a b c] d show ?case by simp
qed

lemma delete_absent: "\<not> hasProp k row \<Longrightarrow> AList.delete k row = row"
proof -
  assume "\<not> hasProp k row"
  then have "map_of row k = None"
    by (simp add: hasProp_def propertyNames_def Object_keys_def map_of_eq_None_iff)
  then show ?thesis by (induction row) (auto split: if_splits)
qed

lemma streamMatchItem_sim:
  assumes rel: "stream_rel data2 s a"
    and inv: "cmp_inv mappings data1 data2 p a"
    and clean: "noIndexProperty data2"
  shows "stream_rel data2 (streamMatchItem mappings item1 s) (matchStep mappings p item1 a)"
proof -
  let ?key = "createCompositeKey item1 mappings True"
  from rel have sm: "streamMatched s = matched a" and su: "streamInFile1Only s = inFile1Only a"
    and sa: "allFile2UniqueItems s = inFile2Only a"
    and sf: "streamFile2Map s = wrapIndices data2 (file2Map a)"
    by (simp_all add: stream_rel_def)
  show ?thesis
  proof (cases "?key \<noteq> [] \<and> (\<exists>j rest. file2Map a ?key = Some (j # rest))")
    case True
    then obtain j rest where ne: "?key \<noteq> []" and fk: "file2Map a ?key = Some (j # rest)"
      by blast
    from inv have fm: "file2Map a ?key =
        (if ?key \<noteq> [] \<and> positions2 mappings data2 ?key \<noteq> []
         then Some (drop (arrivals1 mappings data1 p ?key) (positions2 mappings data2 ?key)) else None)"
      and len: "length (inFile2Only a) = length data2"
      and live: "\<And>i. i \<in> set (drop (arrivals1 mappings data1 p ?key) (positions2 mappings data2 ?key))
          \<Longrightarrow> inFile2Only a ! i = Some (data2 ! i)"
      unfolding cmp_inv_def by blast+
    from fm fk have dr: "drop (arrivals1 mappings data1 p ?key) (positions2 mappings data2 ?key) = j # rest"
      by (simp split: if_splits)
    then have jin: "j \<in> set (positions2 mappings data2 ?key)"
      by (metis in_set_dropD list.set_intros(1))
    then have jlt: "j < length data2" by (simp add: positions2_props)
    have jlive: "inFile2Only a ! j = Some (data2 ! j)"
      by (rule live) (simp add: dr)
    have get: "arrayGet (inFile2Only a) j = Obj (data2 ! j)"
      using jlt len jlive by (simp add: arrayGet_def)
    have "\<not> hasProp ''_originalIndexInAllFile2'' (data2 ! j)"
      using clean jlt by (simp add: noIndexProperty_def list_all_length)
    then have del: "AList.delete ''_originalIndexInAllFile2'' (data2 ! j) = data2 ! j"
      by (rule delete_absent)
    have a': "matchStep mappings p item1 a =
       a\<lparr>matched := matched a @ [withMatchedWith item1 (Obj (data2 ! j))],
         inFile2Only := arraySetNull (inFile2Only a) j,
         file2Map := (file2Map a)(?key \<mapsto> rest)\<rparr>"
      using matchStep_match [OF ne fk, of p] by (simp add: get)
    have sk: "streamFile2Map s ?key = Some ((data2 ! j, j) # map (\<lambda>i. (data2 ! i, i)) rest)"
      by (simp add: sf wrapIndices_def fk)
    have s': "streamMatchItem mappings item1 s =
       s\<lparr>streamFile2Map := (streamFile2Map s)(?key \<mapsto> map (\<lambda>i. (data2 ! i, i)) rest),
         allFile2UniqueItems := arraySetNull (allFile2UniqueItems s) j,
         streamMatched := streamMatched s @ [withMatchedWith item1 (Obj (data2 ! j))]\<rparr>"
      using ne sk by (simp add: streamMatchItem_def Let_def del)
    have mp: "(wrapIndices data2 (file2Map a))(?key \<mapsto> map (\<lambda>i. (data2 ! i, i)) rest)
        = wrapIndices data2 ((file2Map a)(?key \<mapsto> rest))"
      by (rule ext) (simp add: wrapIndices_def)
    show ?thesis
      unfolding a' s' by (simp add: stream_rel_def sm su sa sf mp)
  next
    case False
    then have nomatch: "?key = [] \<or> file2Map a ?key = None \<or> file2Map a ?key = Some []"
    proof (cases "file2Map a ?key")
      case None
      then show ?thesis by simp
    next
      case (Some l)
      with False show ?thesis by (cases l) auto
    qed
    have a': "matchStep mappings p item1 a = a\<lparr>inFile1Only := inFile1Only a @ [item1]\<rparr>"
      by (rule matchStep_nomatch [OF nomatch])
    have s': "streamMatchItem mappings item1 s = s\<lparr>streamInFile1Only := streamInFile1Only s @ [item1]\<rparr>"
      using nomatch by (auto simp: streamMatchItem_def Let_def sf wrapIndices_def)
    show ?thesis
      unfolding a' s' by (simp add: stream_rel_def sm su sa sf)
  qed
qed

lemma streamMatch_fold:
  "stream_rel data2 s a \<Longrightarrow> cmp_inv mappings data1 data2 p a \<Longrightarrow> noIndexProperty data2 \<Longrightarrow>
   p \<le> length data1 \<Longrightarrow> drop p data1 = xs \<Longrightarrow>
   stream_rel data2 (fold (streamMatchItem mappings) xs s) (forChunk (matchStep mappings) p xs a)"
proof (induction xs arbitrary: p s a)
  case Nil
  then show ?case by simp
next
  case (Cons x xs)
  from Cons.prems(5) have p: "p < length data1" and x: "data1 ! p = x" and rest: "drop (Suc p) data1 = xs"
    by (metis drop_eq_Nil2 list.distinct(1) not_le, metis nth_via_drop, metis drop_Suc tl_drop list.sel(3))
  from p have le: "Suc p \<le> length data1" by simp
  have r': "stream_rel data2 (streamMatchItem mappings x s) (matchStep mappings p x a)"
    by (rule streamMatchItem_sim [OF Cons.prems(1) Cons.prems(2) Cons.prems(3)])
  have i': "cmp_inv mappings data1 data2 (Suc p) (matchStep mappings p x a)"
    using cmp_inv_step [OF Cons.prems(2) p] by (simp add: x)
  from Cons.IH [OF r' i' Cons.prems(3) le rest] show ?case by simp
qed

lemma compareLoopState_flat:
  "compareLoopState data1 data2 mappings =
      forChunk (matchStep mappings) 0 data1
        \<lparr>matched = [], inFile1Only = [], inFile2Only = map Some data2,
         file2Map = indexMapUpTo mappings data2 (length data2)\<rparr>"
proof -
  have a: "forChunk (indexStep mappings) 0 data2 (indexMapUpTo mappings data2 0)
             = indexMapUpTo mappings data2 (length data2)"
    by (rule indexMap_forChunk) simp_all
  have b: "forChunk (indexStep mappings) 0 data2 Map.empty = indexMapUpTo mappings data2 (length data2)"
    using a by (simp only: indexMapUpTo_0)
  show ?thesis
    unfolding compareLoopState_def forChunks_flat drop_0 b ..
qed

lemma streams_refine_arrays:
  assumes "noIndexProperty (concat stream2)"
  shows "compareUniqueItemStreams stream1 stream2 mappings
           = compareFilesWithMappings (concat stream1) (concat stream2) mappings"
proof -
  let ?d1 = "concat stream1" and ?d2 = "concat stream2"
  let ?s0 = "\<lparr>streamMatched = [], streamInFile1Only = [], allFile2UniqueItems = [],
                streamFile2Map = Map.empty, file2CurrentIndex = 0\<rparr>"
  define s1 where "s1 = fold (streamIndexItem mappings) ?d2 ?s0"
  define a1 where "a1 = \<lparr>matched = [], inFile1Only = [], inFile2Only = map Some ?d2,
         file2Map = indexMapUpTo mappings ?d2 (length ?d2)\<rparr>"
  have w0: "streamFile2Map ?s0 = wrapIndices ?d2 (indexMapUpTo mappings ?d2 0)"
    by (rule ext) (simp add: wrapIndices_def indexMapUpTo_def)
  have "allFile2UniqueItems s1 = map Some ?d2
   \<and> streamFile2Map s1 = wrapIndices ?d2 (indexMapUpTo mappings ?d2 (length ?d2))
   \<and> streamMatched s1 = streamMatched ?s0
   \<and> streamInFile1Only s1 = streamInFile1Only ?s0"
    unfolding s1_def by (rule streamIndex_fold [OF _ _ _ _ w0]) simp_all
  then have rel1: "stream_rel ?d2 s1 a1"
    by (simp add: stream_rel_def a1_def)
  have inv1: "cmp_inv mappings ?d1 ?d2 0 a1"
    unfolding a1_def by (rule cmp_inv_init)
  have rel2: "stream_rel ?d2 (fold (streamMatchItem mappings) ?d1 s1)
      (forChunk (matchStep mappings) 0 ?d1 a1)"
    by (rule streamMatch_fold [OF rel1 inv1 assms]) simp_all
  have st: "compareLoopState ?d1 ?d2 mappings = forChunk (matchStep mappings) 0 ?d1 a1"
    unfolding a1_def by (rule compareLoopState_flat)
  have lhs: "compareUniqueItemStreams stream1 stream2 mappings =
      \<lparr>res_matched = streamMatched (fold (streamMatchItem mappings) ?d1 s1),
       res_inFile1Only = streamInFile1Only (fold (streamMatchItem mappings) ?d1 s1),
       res_inFile2Only = filterBoolean (allFile2UniqueItems (fold (streamMatchItem mappings) ?d1 s1))\<rparr>"
    by (simp add: compareUniqueItemStreams_def forEachChunk_fold s1_def Let_def)
  show ?thesis
    unfolding lhs compareFilesWithMappings_eq st
    using rel2 by (simp add: stream_rel_def)
qed

text \<open>
  Claim C3 (FIFO tie-break).  The matched entries of \<open>compareFilesWithMappings\<close> are
  exactly the FIFO pairing: the record of dataset 1 that is the \<open>r\<close>-th arrival with a
  key is paired with the \<open>r\<close>-th arrival of dataset 2 with that key, and is unmatched
  when there is none.  Every record of dataset 2 is the back-reference of exactly one
  matched entry or stays in the file-2-only result, so none is consumed twice.  The
  streamed matcher \<open>compareUniqueItemStreams\<close> computes the same result on the
  concatenated chunks, provided no row of dataset 2 has a property with the name of its
  bookkeeping field.
\<close>

theorem fifo_pairing:
  "res_matched (compareFilesWithMappings data1 data2 mappings) = fifoMatched mappings data1 data2
   \<and> res_inFile1Only (compareFilesWithMappings data1 data2 mappings)
       = fifoUnmatched1 mappings data1 data2
   \<and> mset (backReferences (res_matched (compareFilesWithMappings data1 data2 mappings)))
       + mset (map Obj (res_inFile2Only (compareFilesWithMappings data1 data2 mappings)))
       = mset (map Obj data2)
   \<and> (noIndexProperty (concat stream2) \<longrightarrow>
        compareUniqueItemStreams stream1 stream2 mappings
          = compareFilesWithMappings (concat stream1) (concat stream2) mappings)"
proof -
  let ?s = "compareLoopState data1 data2 mappings"
  have inv: "cmp_inv mappings data1 data2 (length data1) ?s"
    by (rule compareLoopState_inv)
  then have m: "matched ?s = fifoMatchedUpTo mappings data1 data2 (length data1)"
    and u: "inFile1Only ?s = fifoUnmatched1UpTo mappings data1 data2 (length data1)"
    and ms: "mset (backReferences (matched ?s)) + mset (map Obj (filterBoolean (inFile2Only ?s)))
       = mset (map Obj data2)"
    unfolding cmp_inv_def by blast+
  have r: "res_matched (compareFilesWithMappings data1 data2 mappings) = matched ?s"
    "res_inFile1Only (compareFilesWithMappings data1 data2 mappings) = inFile1Only ?s"
    "res_inFile2Only (compareFilesWithMappings data1 data2 mappings) = filterBoolean (inFile2Only ?s)"
    by (simp_all add: compareFilesWithMappings_eq)
  have arrays: "res_matched (compareFilesWithMappings data1 data2 mappings) = fifoMatched mappings data1 data2
   \<and> res_inFile1Only (compareFilesWithMappings data1 data2 mappings)
       = fifoUnmatched1 mappings data1 data2
   \<and> mset (backReferences (res_matched (compareFilesWithMappings data1 data2 mappings)))
       + mset (map Obj (res_inFile2Only (compareFilesWithMappings data1 data2 mappings)))
       = mset (map Obj data2)"
    unfolding r fifoMatched_def fifoUnmatched1_def using m u ms by blast
  have streams: "noIndexProperty (concat stream2) \<longrightarrow>
        compareUniqueItemStreams stream1 stream2 mappings
          = compareFilesWithMappings (concat stream1) (concat stream2) mappings"
    by (rule impI) (rule streams_refine_arrays)
  from arrays streams show ?thesis by blast
qed

theorem fifo_pairing_witness:
  "noIndexProperty (concat fifoStream2)
   \<and> res_matched (compareUniqueItemStreams fifoStream1 fifoStream2 [idMapping])
     = [[(''id'', Str ''1''), (''n'', Str ''a''),
         (''_matchedWith'', Obj [(''id'', Str ''1''), (''n'', Str ''c'')])],
        [(''id'', Str ''1''), (''n'', Str ''b''),
         (''_matchedWith'', Obj [(''id'', Str ''1''), (''n'', Str ''d'')])]]
   \<and> fifoMatched [idMapping] (concat fifoStream1) (concat fifoStream2)
     = [[(''id'', Str ''1''), (''n'', Str ''a''),
         (''_matchedWith'', Obj [(''id'', Str ''1''), (''n'', Str ''c'')])],
        [(''id'', Str ''1''), (''n'', Str ''b''),
         (''_matchedWith'', Obj [(''id'', Str ''1''), (''n'', Str ''d'')])]]"
proof -
  have clean: "noIndexProperty (concat fifoStream2)"
    by code_simp
  have arr: "res_matched (compareFilesWithMappings (concat fifoStream1) (concat fifoStream2) [idMapping])
     = [[(''id'', Str ''1''), (''n'', Str ''a''),
         (''_matchedWith'', Obj [(''id'', Str ''1''), (''n'', Str ''c'')])],
        [(''id'', Str ''1''), (''n'', Str ''b''),
         (''_matchedWith'', Obj [(''id'', Str ''1''), (''n'', Str ''d'')])]]"
    by code_simp
  note inst = fifo_pairing [of "concat fifoStream1" "concat fifoStream2" "[idMapping]"
      fifoStream2 fifoStream1]
  from inst clean have eq: "compareUniqueItemStreams fifoStream1 fifoStream2 [idMapping]
      = compareFilesWithMappings (concat fifoStream1) (concat fifoStream2) [idMapping]"
    by blast
  from inst have spec: "res_matched (compareFilesWithMappings (concat fifoStream1) (concat fifoStream2) [idMapping])
      = fifoMatched [idMapping] (concat fifoStream1) (concat fifoStream2)"
    by blast
  from clean eq spec arr show ?thesis by simp
qed

end
